theory Spec2Isabelle
  imports Complex_Main "HOL-Library.Multiset" "HOL-Library.Signed_Division"
begin

section \<open>The quadrature engine: \<open>Calc_MatrixElements_Vlr\<close> and \<open>Set_Hlr\<close>\<close>

text \<open>
  The C code works on global arrays. The read-only geometry tables are collected in the
  record \<open>atoms\<close>; the arrays of doubles are collected in the record \<open>grids\<close>, which is
  passed through every operation and returned, so that what a call leaves unchanged can
  be stated. Arrays are total functions on their indices: the code performs no bounds
  check and the tables come from the surrounding program.

  The type \<open>'a\<close> stands for C's \<open>double\<close>. The quadrature only adds and multiplies, and
  the development below uses no law of arithmetic for it, so every general theorem holds
  for any interpretation of \<open>+\<close> and \<open>*\<close>, rounding included.

  The matrix blocks \<open>Hlr[idx_P][Mc_AN][h_AN][i][j]\<close> form a store addressed by the five
  indices.
\<close>

record atoms =
  Matomnum :: nat
  M2G :: "nat \<Rightarrow> nat"
  FNAN :: "nat \<Rightarrow> nat"
  natn :: "nat \<Rightarrow> nat \<Rightarrow> nat"
  F_G2M :: "nat \<Rightarrow> nat"
  WhatSpecies :: "nat \<Rightarrow> nat"
  Spe_Total_NO :: "nat \<Rightarrow> nat"
  NumOLG :: "nat \<Rightarrow> nat \<Rightarrow> nat"
  GListTAtoms1 :: "nat \<Rightarrow> nat \<Rightarrow> nat \<Rightarrow> nat"
  GListTAtoms2 :: "nat \<Rightarrow> nat \<Rightarrow> nat \<Rightarrow> nat"
  MGridListAtom :: "nat \<Rightarrow> nat \<Rightarrow> nat"
  G2ID :: "nat \<Rightarrow> nat"
  myid :: nat

type_synonym hkey = "nat \<times> nat \<times> nat \<times> nat \<times> nat"

record 'a grids =
  Hlr :: "hkey \<Rightarrow> 'a"
  Vlr_Grid :: "nat \<Rightarrow> nat \<Rightarrow> 'a"
  Orbs_Grid :: "nat \<Rightarrow> nat \<Rightarrow> nat \<Rightarrow> 'a"
  Orbs_Grid_FNAN :: "nat \<Rightarrow> nat \<Rightarrow> nat \<Rightarrow> nat \<Rightarrow> 'a"
  GridVol :: 'a

subsection \<open>One-dimensionalization of the task loops\<close>

text \<open>
  The first pass counts the iterations of the nested loop
  \<open>for Mc_AN = 1 .. Matomnum; for h_AN = 0 .. FNAN[M2G[Mc_AN]]\<close>; the second pass writes
  the two index arrays at position \<open>Nloop\<close>. The arrays come from \<open>malloc\<close>; every cell is
  assigned by the second pass before it is read.
\<close>

definition count_loops :: "atoms \<Rightarrow> nat" where
  "count_loops env =
     fold (\<lambda>Mc_AN Nloop.
             fold (\<lambda>h_AN Nloop. Nloop + 1) [0..<FNAN env (M2G env Mc_AN) + 1] Nloop)
          [1..<Matomnum env + 1] 0"

definition fill_loops :: "atoms \<Rightarrow> nat list \<times> nat list \<times> nat \<Rightarrow> nat list \<times> nat list \<times> nat" where
  "fill_loops env =
     fold (\<lambda>Mc_AN.
             fold (\<lambda>h_AN (OneD2Mc_AN, OneD2h_AN, Nloop).
                     (OneD2Mc_AN[Nloop := Mc_AN], OneD2h_AN[Nloop := h_AN], Nloop + 1))
                  [0..<FNAN env (M2G env Mc_AN) + 1])
          [1..<Matomnum env + 1]"

definition one_dimensionalize :: "atoms \<Rightarrow> nat list \<times> nat list \<times> nat" where
  "one_dimensionalize env =
     (let Nloop = count_loops env
      in fill_loops env (replicate Nloop 0, replicate Nloop 0, 0))"

text \<open>The pairs the nested loop visits, in its order.\<close>

definition task_pairs :: "atoms \<Rightarrow> (nat \<times> nat) list" where
  "task_pairs env =
     concat (map (\<lambda>Mc_AN. map (Pair Mc_AN) [0..<FNAN env (M2G env Mc_AN) + 1])
                 [1..<Matomnum env + 1])"

subsection \<open>One task of the quadrature loop\<close>

text \<open>
  \<open>AI_tmpH\<close> is the scratch block of the worker. \<open>load_block\<close> is the loop that seeds it
  from \<open>Hlr\<close>, \<open>grid_point\<close> is the body of the loop over \<open>Nog\<close> with its two branches, and
  \<open>store_block\<close> is the loop that writes the scratch block back.
\<close>

definition load_block ::
  "(hkey \<Rightarrow> 'a) \<Rightarrow> nat \<Rightarrow> nat \<Rightarrow> nat \<Rightarrow> nat \<Rightarrow> nat \<Rightarrow> (nat \<times> nat \<Rightarrow> 'a) \<Rightarrow> (nat \<times> nat \<Rightarrow> 'a)" where
  "load_block H idx_P Mc_AN h_AN NO0 NO1 =
     fold (\<lambda>i. fold (\<lambda>j AI_tmpH. AI_tmpH((i, j) := H (idx_P, Mc_AN, h_AN, i, j))) [0..<NO1])
          [0..<NO0]"

definition grid_point ::
  "atoms \<Rightarrow> ('a::{plus,times}) grids \<Rightarrow> nat \<Rightarrow> nat \<Rightarrow> nat \<Rightarrow> nat \<Rightarrow> nat \<Rightarrow> nat \<Rightarrow> nat \<Rightarrow> nat
     \<Rightarrow> (nat \<times> nat \<Rightarrow> 'a) \<Rightarrow> (nat \<times> nat \<Rightarrow> 'a)" where
  "grid_point env s idx_P Mc_AN h_AN Gh_AN Mh_AN NO0 NO1 Nog =
     (let Nc = GListTAtoms1 env Mc_AN h_AN Nog;
          MN = MGridListAtom env Mc_AN Nc;
          Nh = GListTAtoms2 env Mc_AN h_AN Nog;
          AI_tmp_GVVG = GridVol s * Vlr_Grid s idx_P MN
      in if G2ID env Gh_AN = myid env then
           fold (\<lambda>i. let AI_tmp_i = AI_tmp_GVVG * Orbs_Grid s Mc_AN Nc i
                      in fold (\<lambda>j AI_tmpH.
                                 AI_tmpH((i, j) := AI_tmpH (i, j) + AI_tmp_i * Orbs_Grid s Mh_AN Nh j))
                              [0..<NO1])
                [0..<NO0]
         else
           fold (\<lambda>i. let AI_tmp_i = AI_tmp_GVVG * Orbs_Grid s Mc_AN Nc i
                      in fold (\<lambda>j AI_tmpH.
                                 AI_tmpH((i, j) := AI_tmpH (i, j) + AI_tmp_i * Orbs_Grid_FNAN s Mc_AN h_AN Nog j))
                              [0..<NO1])
                [0..<NO0])"

definition store_block ::
  "(nat \<times> nat \<Rightarrow> 'a) \<Rightarrow> nat \<Rightarrow> nat \<Rightarrow> nat \<Rightarrow> nat \<Rightarrow> nat \<Rightarrow> (hkey \<Rightarrow> 'a) \<Rightarrow> (hkey \<Rightarrow> 'a)" where
  "store_block AI_tmpH idx_P Mc_AN h_AN NO0 NO1 =
     fold (\<lambda>i. fold (\<lambda>j H. H((idx_P, Mc_AN, h_AN, i, j) := AI_tmpH (i, j))) [0..<NO1])
          [0..<NO0]"

definition quad_task ::
  "atoms \<Rightarrow> nat \<Rightarrow> nat \<Rightarrow> nat
     \<Rightarrow> (nat \<times> nat \<Rightarrow> 'a) \<times> ('a::{plus,times}) grids \<Rightarrow> (nat \<times> nat \<Rightarrow> 'a) \<times> 'a grids" where
  "quad_task env idx_P Mc_AN h_AN = (\<lambda>(AI_tmpH, s).
     (let Gc_AN = M2G env Mc_AN;
          Gh_AN = natn env Gc_AN h_AN;
          Mh_AN = F_G2M env Gh_AN;
          Cwan = WhatSpecies env Gc_AN;
          Hwan = WhatSpecies env Gh_AN;
          NOLG = NumOLG env Mc_AN h_AN;
          NO0 = Spe_Total_NO env Cwan;
          NO1 = Spe_Total_NO env Hwan;
          AI_tmpH1 = load_block (Hlr s) idx_P Mc_AN h_AN NO0 NO1 AI_tmpH;
          AI_tmpH2 = fold (grid_point env s idx_P Mc_AN h_AN Gh_AN Mh_AN NO0 NO1) [0..<NOLG] AI_tmpH1
      in (AI_tmpH2, s\<lparr>Hlr := store_block AI_tmpH2 idx_P Mc_AN h_AN NO0 NO1 (Hlr s)\<rparr>)))"

text \<open>
  The whole call. The task list is built first; the loop over \<open>Nloop\<close> then runs the tasks.
  The tasks of the OpenMP loop are run here in the order of \<open>Nloop\<close> by one worker, whose
  scratch block starts with the indeterminate contents \<open>AI_tmpH0\<close>.
\<close>

definition Calc_MatrixElements_Vlr ::
  "atoms \<Rightarrow> (nat \<times> nat \<Rightarrow> 'a) \<Rightarrow> nat \<Rightarrow> ('a::{plus,times}) grids \<Rightarrow> 'a grids" where
  "Calc_MatrixElements_Vlr env AI_tmpH0 idx_P s =
     (case one_dimensionalize env of (OneD2Mc_AN, OneD2h_AN, OneD_Nloop) \<Rightarrow>
        snd (fold (\<lambda>Nloop. quad_task env idx_P (OneD2Mc_AN ! Nloop) (OneD2h_AN ! Nloop))
                  [0..<OneD_Nloop] (AI_tmpH0, s)))"

definition Set_Hlr :: "atoms \<Rightarrow> (nat \<times> nat \<Rightarrow> 'a) \<Rightarrow> ('a::{plus,times}) grids \<Rightarrow> 'a grids" where
  "Set_Hlr env AI_tmpH0 s =
     fold (\<lambda>Mc_AN. Calc_MatrixElements_Vlr env AI_tmpH0 Mc_AN) [1..<Matomnum env + 1] s"

subsection \<open>The value a task leaves in a block entry\<close>

text \<open>
  \<open>NO0_of\<close> and \<open>NO1_of\<close> are the block dimensions \<open>NO0\<close> and \<open>NO1\<close> of a task. \<open>quad_sum\<close>
  is the accumulation over the grid points of a pair for one entry \<open>(i, j)\<close>, started from
  \<open>seed\<close>: each term is \<open>((GridVol * Vlr_Grid[idx_P][MN]) * Orbs_Grid[Mc_AN][Nc][i])\<close> times
  the orbital value of the neighbour, taken from \<open>Orbs_Grid[Mh_AN][Nh][j]\<close> when the
  neighbour's global atom belongs to this process and from
  \<open>Orbs_Grid_FNAN[Mc_AN][h_AN][Nog][j]\<close> otherwise.
\<close>

definition quad_sum ::
  "atoms \<Rightarrow> ('a::{plus,times}) grids \<Rightarrow> nat \<Rightarrow> nat \<Rightarrow> nat \<Rightarrow> nat \<Rightarrow> nat \<Rightarrow> 'a \<Rightarrow> 'a" where
  "quad_sum env s idx_P Mc_AN h_AN i j seed =
     foldl (\<lambda>acc Nog.
              acc + GridVol s
                    * Vlr_Grid s idx_P (MGridListAtom env Mc_AN (GListTAtoms1 env Mc_AN h_AN Nog))
                    * Orbs_Grid s Mc_AN (GListTAtoms1 env Mc_AN h_AN Nog) i
                    * (if G2ID env (natn env (M2G env Mc_AN) h_AN) = myid env
                       then Orbs_Grid s (F_G2M env (natn env (M2G env Mc_AN) h_AN))
                              (GListTAtoms2 env Mc_AN h_AN Nog) j
                       else Orbs_Grid_FNAN s Mc_AN h_AN Nog j))
           seed [0..<NumOLG env Mc_AN h_AN]"

definition NO0_of :: "atoms \<Rightarrow> nat \<Rightarrow> nat" where
  "NO0_of env Mc_AN = Spe_Total_NO env (WhatSpecies env (M2G env Mc_AN))"

definition NO1_of :: "atoms \<Rightarrow> nat \<Rightarrow> nat \<Rightarrow> nat" where
  "NO1_of env Mc_AN h_AN = Spe_Total_NO env (WhatSpecies env (natn env (M2G env Mc_AN) h_AN))"

text \<open>The block entries a set of tasks may write, and what one call leaves in them.\<close>

definition block_entry :: "atoms \<Rightarrow> nat \<Rightarrow> (nat \<times> nat) set \<Rightarrow> hkey \<Rightarrow> bool" where
  "block_entry env idx_P ts = (\<lambda>(q, m, h, a, b).
     q = idx_P \<and> (m, h) \<in> ts \<and> a < NO0_of env m \<and> b < NO1_of env m h)"

definition quad_block :: "atoms \<Rightarrow> ('a::{plus,times}) grids \<Rightarrow> hkey \<Rightarrow> 'a" where
  "quad_block env s = (\<lambda>(q, m, h, a, b). quad_sum env s q m h a b (Hlr s (q, m, h, a, b)))"

subsection \<open>A small configuration\<close>

text \<open>
  One locally owned atom (global atom 1) with one neighbour (global atom 2) that belongs
  to process 1, one orbital per atom and two grid points per pair. The orbital of the
  local atom is 1 on its grid, the halo copy of the neighbour's orbital is 3, and the
  local array holds 5 at the neighbour's index.
\<close>

definition atoms_ex :: atoms where
  "atoms_ex = \<lparr>Matomnum = 1, M2G = (\<lambda>Mc_AN. 1), FNAN = (\<lambda>Gc_AN. 1),
     natn = (\<lambda>Gc_AN h_AN. if h_AN = 0 then 1 else 2), F_G2M = (\<lambda>Gh_AN. Gh_AN),
     WhatSpecies = (\<lambda>Gc_AN. 0), Spe_Total_NO = (\<lambda>spe. 1), NumOLG = (\<lambda>Mc_AN h_AN. 2),
     GListTAtoms1 = (\<lambda>Mc_AN h_AN Nog. Nog), GListTAtoms2 = (\<lambda>Mc_AN h_AN Nog. Nog),
     MGridListAtom = (\<lambda>Mc_AN Nc. Nc), G2ID = (\<lambda>Gc_AN. if Gc_AN = 1 then 0 else 1), myid = 0\<rparr>"

definition grids_ex :: "real grids" where
  "grids_ex = \<lparr>Hlr = (\<lambda>k. 0), Vlr_Grid = (\<lambda>idx_P MN. if MN = 0 then 1 else 2),
     Orbs_Grid = (\<lambda>Mc_AN Nc i. if Mc_AN = 1 then 1 else 5),
     Orbs_Grid_FNAN = (\<lambda>Mc_AN h_AN Nog j. 3), GridVol = 2\<rparr>"

section \<open>The reciprocal-space solver: the coefficient loop of \<open>Calc_Vlr\<close>\<close>

text \<open>
  The globals the loop reads. The grid dimensions, the number of processes and the rank
  are values of C's \<open>int\<close>, a 32-bit two's complement integer: they are modelled by
  integers, the result of every \<open>+\<close>, \<open>-\<close> and \<open>*\<close> on them is reduced by \<open>int32\<close> to the
  value the machine keeps, and \<open>/\<close> is \<open>int_div\<close>, which truncates towards zero and stops
  the program when the divisor is zero or the quotient is not an \<open>int\<close>. C's \<open>double\<close> is
  modelled by \<open>real\<close>, so the statements about the coefficients are statements about the
  formulas the code evaluates, not about their rounding.
\<close>

record recip =
  Ngrid1 :: int
  Ngrid2 :: int
  Ngrid3 :: int
  rtv :: "nat \<Rightarrow> nat \<Rightarrow> real"
  Gxyz :: "nat \<Rightarrow> nat \<Rightarrow> real"
  Cell_Volume :: real

definition int32 :: "int \<Rightarrow> int" where
  "int32 x = (x + 2147483648) mod 4294967296 - 2147483648"

text \<open>
  The ways the loop can go wrong: an integer division by zero, an integer division whose
  quotient is out of range (\<open>INT_MIN / -1\<close>), a \<open>double\<close> division by zero, whose result is
  no real number, and a store outside an allocated array.
\<close>

datatype fault = Integer_Division_By_Zero | Integer_Division_Overflow | Division_By_Zero | Out_Of_Bounds

definition int_div :: "int \<Rightarrow> int \<Rightarrow> fault + int" where
  "int_div a b =
     (if b = 0 then Inl Integer_Division_By_Zero
      else if a = - 2147483648 \<and> b = - 1 then Inl Integer_Division_Overflow
      else Inr (a sdiv b))"

definition checked_div :: "real \<Rightarrow> real \<Rightarrow> fault + real" where
  "checked_div x y = (if y = 0 then Inl Division_By_Zero else Inr (x / y))"

text \<open>
  \<open>N2D = Ngrid3*Ngrid2; GNs = ((myid*N2D+numprocs-1)/numprocs)*Ngrid1;\<close> the flat index
  of the first grid point of the calling process.
\<close>

definition GNs_of :: "recip \<Rightarrow> int \<Rightarrow> int \<Rightarrow> fault + int" where
  "GNs_of g numprocs myid' =
     (let N2D = int32 (Ngrid3 g * Ngrid2 g)
      in case int_div (int32 (int32 (int32 (myid' * N2D) + numprocs) - 1)) numprocs of
           Inl e \<Rightarrow> Inl e
         | Inr q \<Rightarrow> Inr (int32 (q * Ngrid1 g)))"

text \<open>
  The three indices recovered from the flat index \<open>GN\<close>, as \<open>(k1, k2, k3)\<close>:
  \<open>k3 = GN/(Ngrid2*Ngrid1); k2 = (GN - k3*Ngrid2*Ngrid1)/Ngrid1;
  k1 = GN - k3*Ngrid2*Ngrid1 - k2*Ngrid1;\<close>
\<close>

definition grid_index :: "recip \<Rightarrow> int \<Rightarrow> fault + (int \<times> int \<times> int)" where
  "grid_index g GN =
     (case int_div GN (int32 (Ngrid2 g * Ngrid1 g)) of
        Inl e \<Rightarrow> Inl e
      | Inr k3 \<Rightarrow>
         (case int_div (int32 (GN - int32 (int32 (k3 * Ngrid2 g) * Ngrid1 g))) (Ngrid1 g) of
            Inl e \<Rightarrow> Inl e
          | Inr k2 \<Rightarrow>
             Inr (int32 (int32 (GN - int32 (int32 (k3 * Ngrid2 g) * Ngrid1 g)) - int32 (k2 * Ngrid1 g)),
                  k2, k3)))"

text \<open>
  \<open>if (k<Ngrid/2) sk = (double)k; else sk = (double)(k - Ngrid);\<close> The divisor \<open>2\<close> is a
  constant, so this division cannot stop the program.
\<close>

definition fold_axis :: "int \<Rightarrow> int \<Rightarrow> real" where
  "fold_axis k Ngrid = (if k < Ngrid sdiv 2 then real_of_int k else real_of_int (int32 (k - Ngrid)))"

text \<open>The reciprocal vector \<open>(Gx, Gy, Gz)\<close> of a grid point.\<close>

definition recip_vector :: "recip \<Rightarrow> int \<Rightarrow> fault + (real \<times> real \<times> real)" where
  "recip_vector g GN =
     (case grid_index g GN of
        Inl e \<Rightarrow> Inl e
      | Inr (k1, k2, k3) \<Rightarrow>
        (let sk1 = fold_axis k1 (Ngrid1 g);
             sk2 = fold_axis k2 (Ngrid2 g);
             sk3 = fold_axis k3 (Ngrid3 g);
             Gx = sk1 * rtv g 1 1 + sk2 * rtv g 2 1 + sk3 * rtv g 3 1;
             Gy = sk1 * rtv g 1 2 + sk2 * rtv g 2 2 + sk3 * rtv g 3 2;
             Gz = sk1 * rtv g 1 3 + sk2 * rtv g 2 3 + sk3 * rtv g 3 3
         in Inr (Gx, Gy, Gz)))"

text \<open>
  The two assignments under \<open>if (KK>0)\<close> and the two under \<open>else\<close>. The C expressions
  \<open>tmp0/KK*exp(-sigma*sigma*KK/2.)*cos(th)\<close> and \<open>-tmp0/KK*exp(-sigma*sigma*KK/2.)*sin(th)\<close>
  associate to the left.
\<close>

definition Vlrk_coeff :: "real \<Rightarrow> real \<Rightarrow> real \<Rightarrow> real \<Rightarrow> fault + (real \<times> real)" where
  "Vlrk_coeff tmp0 sigma KK th =
     (if KK > 0 then
        (case checked_div tmp0 KK of
           Inl e \<Rightarrow> Inl e
         | Inr q \<Rightarrow>
            (case checked_div (- tmp0) KK of
               Inl e \<Rightarrow> Inl e
             | Inr q' \<Rightarrow> Inr (q * exp (- sigma * sigma * KK / 2) * cos th,
                              q' * exp (- sigma * sigma * KK / 2) * sin th)))
      else Inr (0, 0))"

text \<open>The squared length \<open>KK\<close> of the reciprocal vector of a grid point.\<close>

definition KK_of :: "recip \<Rightarrow> int \<Rightarrow> fault + real" where
  "KK_of g GN =
     (case recip_vector g GN of
        Inl e \<Rightarrow> Inl e
      | Inr (Gx, Gy, Gz) \<Rightarrow> Inr (Gx * Gx + Gy * Gy + Gz * Gz))"

text \<open>
  The body of the loop over \<open>BN_CB\<close> for the source index \<open>idx_P\<close>, up to the two stores;
  \<open>sigma\<close>, \<open>tmp0\<close> and \<open>GNs\<close> are set before the loops.
\<close>

definition Vlrk_point :: "recip \<Rightarrow> real \<Rightarrow> real \<Rightarrow> int \<Rightarrow> nat \<Rightarrow> nat \<Rightarrow> fault + (real \<times> real)" where
  "Vlrk_point g sigma tmp0 GNs idx_P BN_CB =
     (let GN = int32 (int BN_CB + GNs)
      in case recip_vector g GN of
           Inl e \<Rightarrow> Inl e
         | Inr (Gx, Gy, Gz) \<Rightarrow>
            (let KK = Gx * Gx + Gy * Gy + Gz * Gz;
                 thx = - Gx * Gxyz g idx_P 1;
                 thy = - Gy * Gxyz g idx_P 2;
                 thz = - Gz * Gxyz g idx_P 3
             in Vlrk_coeff tmp0 sigma KK (thx + thy + thz)))"

text \<open>
  The loops over \<open>idx_P\<close> and \<open>BN_CB\<close>, which fill \<open>ReVlrk[idx_P][BN_CB]\<close> and
  \<open>ImVlrk[idx_P][BN_CB]\<close>; a fault at one point ends the run. Each row of the two arrays
  is allocated with \<open>My_Max_NumGridB\<close> cells, so a store at \<open>BN_CB\<close> is inside the row when
  \<open>BN_CB < My_Max_NumGridB\<close>. The allocations are taken to succeed.
\<close>

type_synonym coeffs = "(nat \<times> nat \<Rightarrow> real) \<times> (nat \<times> nat \<Rightarrow> real)"

fun fill_points ::
  "(nat \<Rightarrow> nat \<Rightarrow> fault + (real \<times> real)) \<Rightarrow> nat \<Rightarrow> nat \<Rightarrow> nat list \<Rightarrow> coeffs \<Rightarrow> fault + coeffs" where
  "fill_points f My_Max_NumGridB idx_P [] RI = Inr RI"
| "fill_points f My_Max_NumGridB idx_P (BN_CB # rest) (ReVlrk, ImVlrk) =
     (case f idx_P BN_CB of
        Inl e \<Rightarrow> Inl e
      | Inr (re, im) \<Rightarrow>
          if BN_CB < My_Max_NumGridB
          then fill_points f My_Max_NumGridB idx_P rest
                 (ReVlrk((idx_P, BN_CB) := re), ImVlrk((idx_P, BN_CB) := im))
          else Inl Out_Of_Bounds)"

fun fill_sources ::
  "(nat \<Rightarrow> nat \<Rightarrow> fault + (real \<times> real)) \<Rightarrow> nat \<Rightarrow> nat list \<Rightarrow> nat \<Rightarrow> coeffs \<Rightarrow> fault + coeffs" where
  "fill_sources f My_Max_NumGridB [] My_NumGridB_CB RI = Inr RI"
| "fill_sources f My_Max_NumGridB (idx_P # rest) My_NumGridB_CB RI =
     (case fill_points f My_Max_NumGridB idx_P [0..<My_NumGridB_CB] RI of
        Inl e \<Rightarrow> Inl e
      | Inr RI' \<Rightarrow> fill_sources f My_Max_NumGridB rest My_NumGridB_CB RI')"

text \<open>
  The part of \<open>Calc_Vlr\<close> from \<open>sigma = 1.0\<close> to the end of the two loops. \<open>num_sources\<close> is
  \<open>Matomnum + MatomnumF + MatomnumS + 1\<close>; \<open>My_NumGridB_CB\<close> and \<open>My_Max_NumGridB\<close> are
  the two counts of grid points, where a count that is not positive is the count \<open>0\<close>;
  \<open>RI0\<close> is the contents of the freshly allocated arrays.
\<close>

definition Vlrk_fill :: "recip \<Rightarrow> int \<Rightarrow> int \<Rightarrow> nat \<Rightarrow> nat \<Rightarrow> nat \<Rightarrow> coeffs \<Rightarrow> fault + coeffs" where
  "Vlrk_fill g numprocs myid' num_sources My_Max_NumGridB My_NumGridB_CB RI0 =
     (let sigma = 1
      in case checked_div (4 * pi) (Cell_Volume g) of
           Inl e \<Rightarrow> Inl e
         | Inr tmp0 \<Rightarrow>
            (case GNs_of g numprocs myid' of
               Inl e \<Rightarrow> Inl e
             | Inr GNs \<Rightarrow>
                fill_sources (Vlrk_point g sigma tmp0 GNs) My_Max_NumGridB
                  [1..<num_sources + 1] My_NumGridB_CB RI0))"

subsection \<open>The coefficient as the specification words it\<close>

text \<open>
  An axis index \<open>k\<close> maps to \<open>k\<close> if \<open>k < N/2\<close> and to \<open>k - N\<close> otherwise (\<open>N/2\<close> is the integer
  quotient); the folded indices are converted with the reciprocal lattice vectors; the
  coefficient is \<open>(4\<pi>/CellVolume) / K2 * exp(-\<sigma>\<^sup>2 K2 / 2)\<close> times the phase \<open>exp(i G\<cdot>r)\<close> of the
  position \<open>r\<close> of the source, with \<open>\<sigma> = 1\<close>.
\<close>

definition spec_fold :: "int \<Rightarrow> int \<Rightarrow> real" where
  "spec_fold k N = real_of_int (if k < N div 2 then k else k - N)"

definition spec_G :: "recip \<Rightarrow> int \<times> int \<times> int \<Rightarrow> nat \<Rightarrow> real" where
  "spec_G g = (\<lambda>(k1, k2, k3) c.
     spec_fold k1 (Ngrid1 g) * rtv g 1 c + spec_fold k2 (Ngrid2 g) * rtv g 2 c
       + spec_fold k3 (Ngrid3 g) * rtv g 3 c)"

definition spec_K2 :: "recip \<Rightarrow> int \<times> int \<times> int \<Rightarrow> real" where
  "spec_K2 g k = (spec_G g k 1)\<^sup>2 + (spec_G g k 2)\<^sup>2 + (spec_G g k 3)\<^sup>2"

definition spec_phase :: "recip \<Rightarrow> int \<times> int \<times> int \<Rightarrow> nat \<Rightarrow> real" where
  "spec_phase g k idx_P =
     spec_G g k 1 * Gxyz g idx_P 1 + spec_G g k 2 * Gxyz g idx_P 2 + spec_G g k 3 * Gxyz g idx_P 3"

definition spec_magnitude :: "recip \<Rightarrow> int \<times> int \<times> int \<Rightarrow> real" where
  "spec_magnitude g k = (4 * pi / Cell_Volume g) / spec_K2 g k * exp (- (1\<^sup>2 * spec_K2 g k) / 2)"

definition spec_coefficient :: "recip \<Rightarrow> int \<times> int \<times> int \<Rightarrow> nat \<Rightarrow> complex" where
  "spec_coefficient g k idx_P =
     of_real (spec_magnitude g k) * exp (\<i> * of_real (spec_phase g k idx_P))"

text \<open>
  A cubic grid of 4 points a side with a unit reciprocal lattice; the sources sit at
  \<open>(\<pi>/2, 0, 0)\<close>. On two processes the second one owns the grid points from 32 on. The
  second grid has 1024 points a side, and the third has none along its first axis.
\<close>

definition recip_ex :: recip where
  "recip_ex = \<lparr>Ngrid1 = 4, Ngrid2 = 4, Ngrid3 = 4,
     rtv = (\<lambda>i j. if i = j then 1 else 0),
     Gxyz = (\<lambda>idx_P c. if c = 1 then pi / 2 else 0), Cell_Volume = 4 * pi\<rparr>"

definition recip_large :: recip where
  "recip_large = recip_ex\<lparr>Ngrid1 := 1024, Ngrid2 := 1024, Ngrid3 := 1024\<rparr>"

definition recip_empty :: recip where
  "recip_empty = recip_ex\<lparr>Ngrid1 := 0\<rparr>"

section \<open>The redistribution from partition B to partition C: \<open>Data_Grid_Copy_B2C_XiwenLi\<close>\<close>

text \<open>
  The plan is the set of global tables the routine reads. Each process has its own copy;
  the tables are total functions on their indices, as the tables of the quadrature are.
\<close>

record plan =
  NN_B2C_S :: nat
  NN_B2C_R :: nat
  ID_NN_B2C_S :: "nat \<Rightarrow> nat"
  ID_NN_B2C_R :: "nat \<Rightarrow> nat"
  GP_B2C_S :: "nat \<Rightarrow> nat"
  GP_B2C_R :: "nat \<Rightarrow> nat"
  Num_Snd_Grid_B2C :: "nat \<Rightarrow> nat"
  Num_Rcv_Grid_B2C :: "nat \<Rightarrow> nat"
  Index_Snd_Grid_B2C :: "nat \<Rightarrow> nat \<Rightarrow> nat"
  Index_Rcv_Grid_B2C :: "nat \<Rightarrow> nat \<Rightarrow> nat"

text \<open>
  A field and a work buffer are arrays of cells. A cell holds a value (\<open>Some v\<close>) or is
  indeterminate (\<open>None\<close>): a buffer that comes from \<open>malloc\<close> starts with indeterminate
  cells, and a read outside an array yields an indeterminate value. The routine only
  copies cells, so the type \<open>'a\<close> of the values is arbitrary. Under a valid plan every
  write is inside its array; a write outside is dropped by the model.
\<close>

type_synonym 'a cells = "'a option list"

definition rd :: "'a cells \<Rightarrow> nat \<Rightarrow> 'a option" where
  "rd xs i = (if i < length xs then xs ! i else None)"

subsection \<open>Posting the receives and packing the sends\<close>

text \<open>
  A posted receive is the triple of the source rank, the offset \<open>gp\<close> into
  \<open>Work_Array_Rcv_Grid_B2C\<close> and the count. No receive is posted for the process's own
  rank.
\<close>

type_synonym post = "nat \<times> nat \<times> nat"

definition irecv_loop :: "plan \<Rightarrow> nat \<Rightarrow> post list" where
  "irecv_loop P myid' =
     fold (\<lambda>ID posts.
             (let IDR = ID_NN_B2C_R P ID;
                  gp = GP_B2C_R P ID
              in if IDR \<noteq> myid' then posts @ [(IDR, gp, Num_Rcv_Grid_B2C P IDR)] else posts))
          [0..<NN_B2C_R P] []"

text \<open>The loop over \<open>LN\<close> that copies the values for one partner into the send buffer.\<close>

definition pack_partner :: "plan \<Rightarrow> 'a cells \<Rightarrow> nat \<Rightarrow> 'a cells \<Rightarrow> 'a cells" where
  "pack_partner P data_B ID =
     (let IDS = ID_NN_B2C_S P ID;
          gp = GP_B2C_S P ID
      in fold (\<lambda>LN Work_Snd. Work_Snd[gp + LN := rd data_B (Index_Snd_Grid_B2C P IDS LN)])
              [0..<Num_Snd_Grid_B2C P IDS])"

text \<open>
  A message is the pair of the destination rank and the \<open>count\<close> cells of the send buffer
  from \<open>gp\<close> on, as they are when \<open>MPI_Isend\<close> is called. No message is sent to the process's
  own rank.
\<close>

type_synonym 'a message = "nat \<times> 'a cells"

definition isend_loop :: "plan \<Rightarrow> nat \<Rightarrow> 'a cells \<Rightarrow> 'a cells \<times> 'a message list \<Rightarrow> 'a cells \<times> 'a message list" where
  "isend_loop P myid' data_B =
     fold (\<lambda>ID (Work_Snd, sent).
             (let IDS = ID_NN_B2C_S P ID;
                  gp = GP_B2C_S P ID;
                  Work_Snd' = pack_partner P data_B ID Work_Snd
              in (Work_Snd',
                  if IDS \<noteq> myid'
                  then sent @ [(IDS, map (rd Work_Snd') [gp..<gp + Num_Snd_Grid_B2C P IDS])]
                  else sent)))
          [0..<NN_B2C_S P]"

subsection \<open>The message passing library\<close>

text \<open>
  What \<open>MPI_Waitall\<close> on the receive requests does, as far as the routine depends on it.
  \<open>sent p\<close> is the list of messages process \<open>p\<close> has sent. The receive number \<open>i\<close> of the
  calling process is matched with a message of its source addressed to the caller:
  the first such message for the first receive from that source, the second for the
  second, and so on. Its completion writes the payload from \<open>gp\<close> on. A receive with no
  matching message never completes and a payload longer than the count is an error: in
  both cases the call does not return, which is the result \<open>None\<close>. The receives complete
  in an order \<open>ord\<close> that the library chooses. Sends are taken to complete.
\<close>

definition matching_message :: "(nat \<Rightarrow> 'a message list) \<Rightarrow> nat \<Rightarrow> post list \<Rightarrow> nat \<Rightarrow> 'a cells option" where
  "matching_message sent myid' posts i =
     (case posts ! i of (IDR, gp, cnt) \<Rightarrow>
        (let k = length (filter (\<lambda>(s, gp', cnt'). s = IDR) (take i posts));
             msgs = filter (\<lambda>(dest, payload). dest = myid') (sent IDR)
         in if k < length msgs then Some (snd (msgs ! k)) else None))"

definition complete_recv :: "(nat \<Rightarrow> 'a message list) \<Rightarrow> nat \<Rightarrow> post list \<Rightarrow> nat \<Rightarrow> 'a cells \<Rightarrow> 'a cells option" where
  "complete_recv sent myid' posts i Work_Rcv =
     (if i < length posts then
        (case matching_message sent myid' posts i of
           None \<Rightarrow> None
         | Some payload \<Rightarrow>
            (case posts ! i of (IDR, gp, cnt) \<Rightarrow>
               if length payload \<le> cnt
               then Some (fold (\<lambda>j Work_Rcv. Work_Rcv[gp + j := payload ! j]) [0..<length payload] Work_Rcv)
               else None))
      else None)"

fun waitall :: "(nat \<Rightarrow> 'a message list) \<Rightarrow> nat \<Rightarrow> post list \<Rightarrow> nat list \<Rightarrow> 'a cells \<Rightarrow> 'a cells option" where
  "waitall sent myid' posts [] Work_Rcv = Some Work_Rcv"
| "waitall sent myid' posts (i # ord) Work_Rcv =
     (case complete_recv sent myid' posts i Work_Rcv of
        None \<Rightarrow> None
      | Some Work_Rcv' \<Rightarrow> waitall sent myid' posts ord Work_Rcv')"

subsection \<open>Unpacking\<close>

text \<open>
  The last loop of the routine. For the process's own rank the values are taken from the
  send buffer, at the offset \<open>GP_B2C_S[ID]\<close>, where \<open>ID\<close> is the position of the rank in the
  list of receive partners.
\<close>

definition unpack :: "plan \<Rightarrow> nat \<Rightarrow> 'a cells \<Rightarrow> 'a cells \<Rightarrow> 'a cells \<Rightarrow> 'a cells" where
  "unpack P myid' Work_Snd Work_Rcv =
     fold (\<lambda>ID data_C.
             (let IDR = ID_NN_B2C_R P ID
              in if IDR = myid' then
                   (let gp = GP_B2C_S P ID
                    in fold (\<lambda>LN data_C. data_C[Index_Rcv_Grid_B2C P IDR LN := rd Work_Snd (gp + LN)])
                            [0..<Num_Rcv_Grid_B2C P IDR] data_C)
                 else
                   (let gp = GP_B2C_R P ID
                    in fold (\<lambda>LN data_C. data_C[Index_Rcv_Grid_B2C P IDR LN := rd Work_Rcv (gp + LN)])
                            [0..<Num_Rcv_Grid_B2C P IDR] data_C)))
          [0..<NN_B2C_R P]"

subsection \<open>The routine on one process, and on all\<close>

text \<open>
  \<open>plans p\<close> and \<open>data_B p\<close> are the plan and the partition-B field of process \<open>p\<close>. The
  call of process \<open>myid'\<close> allocates the two work buffers with the sizes
  \<open>GP_B2C_S[NN_B2C_S]\<close> and \<open>GP_B2C_R[NN_B2C_R]\<close>, posts its receives, packs and sends,
  waits, and unpacks into \<open>data_C\<close>. The messages it receives are those the other
  processes send in their calls.
\<close>

definition send_side :: "plan \<Rightarrow> nat \<Rightarrow> 'a cells \<Rightarrow> 'a cells \<times> 'a message list" where
  "send_side P myid' data_B =
     isend_loop P myid' data_B (replicate (GP_B2C_S P (NN_B2C_S P)) None, [])"

definition Data_Grid_Copy_B2C_XiwenLi ::
  "(nat \<Rightarrow> plan) \<Rightarrow> (nat \<Rightarrow> 'a cells) \<Rightarrow> nat \<Rightarrow> nat list \<Rightarrow> 'a cells \<Rightarrow> 'a cells option" where
  "Data_Grid_Copy_B2C_XiwenLi plans data_B myid' ord data_C =
     (let P = plans myid';
          Work_Rcv0 = replicate (GP_B2C_R P (NN_B2C_R P)) None;
          posts = irecv_loop P myid';
          Work_Snd = fst (send_side P myid' (data_B myid'));
          sent = (\<lambda>p. snd (send_side (plans p) p (data_B p)))
      in case waitall sent myid' posts ord Work_Rcv0 of
           None \<Rightarrow> None
         | Some Work_Rcv \<Rightarrow> Some (unpack P myid' Work_Snd Work_Rcv data_C))"

text \<open>All processes call the routine; the result is the list of their partition-C fields.\<close>

fun collect :: "'b option list \<Rightarrow> 'b list option" where
  "collect [] = Some []"
| "collect (None # rs) = None"
| "collect (Some r # rs) = (case collect rs of None \<Rightarrow> None | Some xs \<Rightarrow> Some (r # xs))"

definition redistribute ::
  "nat \<Rightarrow> (nat \<Rightarrow> plan) \<Rightarrow> (nat \<Rightarrow> 'a cells) \<Rightarrow> (nat \<Rightarrow> nat list) \<Rightarrow> (nat \<Rightarrow> 'a cells) \<Rightarrow> 'a cells list option" where
  "redistribute numprocs plans data_B ords data_C =
     collect (map (\<lambda>q. Data_Grid_Copy_B2C_XiwenLi plans data_B q (ords q) (data_C q)) [0..<numprocs])"

subsection \<open>Valid plans\<close>

text \<open>
  The index lists of a process towards and from each rank, and the conditions on the
  plans of a run of \<open>numprocs\<close> processes:
  \<^item> the partner lists name, without repetition, the ranks with a non-empty exchange;
  \<^item> the offsets are the running sums of the counts of the partners;
  \<^item> the count process \<open>p\<close> sends to \<open>q\<close> is the count \<open>q\<close> receives from \<open>p\<close>;
  \<^item> every partition-B local index of a process is in exactly one of its send lists,
    and every partition-C local index in exactly one of its receive lists.
\<close>

definition snd_list :: "plan \<Rightarrow> nat \<Rightarrow> nat list" where
  "snd_list P q = map (Index_Snd_Grid_B2C P q) [0..<Num_Snd_Grid_B2C P q]"

definition rcv_list :: "plan \<Rightarrow> nat \<Rightarrow> nat list" where
  "rcv_list P p = map (Index_Rcv_Grid_B2C P p) [0..<Num_Rcv_Grid_B2C P p]"

definition partners_ok :: "nat \<Rightarrow> nat \<Rightarrow> (nat \<Rightarrow> nat) \<Rightarrow> (nat \<Rightarrow> nat) \<Rightarrow> (nat \<Rightarrow> nat) \<Rightarrow> bool" where
  "partners_ok numprocs NN ID_NN GP Num \<longleftrightarrow>
     distinct (map ID_NN [0..<NN]) \<and>
     set (map ID_NN [0..<NN]) = set (filter (\<lambda>q. Num q \<noteq> 0) [0..<numprocs]) \<and>
     GP 0 = 0 \<and> (\<forall>ID \<in> set [0..<NN]. GP (ID + 1) = GP ID + Num (ID_NN ID))"

definition valid_plans :: "nat \<Rightarrow> (nat \<Rightarrow> plan) \<Rightarrow> (nat \<Rightarrow> nat) \<Rightarrow> (nat \<Rightarrow> nat) \<Rightarrow> bool" where
  "valid_plans numprocs plans len_B len_C \<longleftrightarrow>
     (\<forall>p \<in> set [0..<numprocs].
        partners_ok numprocs (NN_B2C_S (plans p)) (ID_NN_B2C_S (plans p)) (GP_B2C_S (plans p))
          (Num_Snd_Grid_B2C (plans p)) \<and>
        partners_ok numprocs (NN_B2C_R (plans p)) (ID_NN_B2C_R (plans p)) (GP_B2C_R (plans p))
          (Num_Rcv_Grid_B2C (plans p)) \<and>
        (\<forall>q \<in> set [0..<numprocs].
           Num_Snd_Grid_B2C (plans p) q = Num_Rcv_Grid_B2C (plans q) p) \<and>
        mset (concat (map (snd_list (plans p)) [0..<numprocs])) = mset [0..<len_B p] \<and>
        mset (concat (map (rcv_list (plans p)) [0..<numprocs])) = mset [0..<len_C p])"

text \<open>
  The unpacking loop relies on one more property: where the process's own rank stands in
  the list of receive partners, it stands in the list of send partners as well.
\<close>

definition self_aligned :: "nat \<Rightarrow> (nat \<Rightarrow> plan) \<Rightarrow> bool" where
  "self_aligned numprocs plans \<longleftrightarrow>
     (\<forall>p \<in> set [0..<numprocs]. \<forall>ID \<in> set [0..<NN_B2C_R (plans p)].
        ID_NN_B2C_R (plans p) ID = p \<longrightarrow> ID < NN_B2C_S (plans p) \<and> ID_NN_B2C_S (plans p) ID = p)"

text \<open>Each posted receive completes once.\<close>

definition complete_once :: "(nat \<Rightarrow> plan) \<Rightarrow> nat \<Rightarrow> nat list \<Rightarrow> bool" where
  "complete_once plans q ord \<longleftrightarrow> mset ord = mset [0..<length (irecv_loop (plans q) q)]"

subsection \<open>Three configurations\<close>

text \<open>
  A run of three processes. Process 0 keeps its first value and sends the second to
  process 1; process 1 sends its first value to process 0 and keeps the second; process 2
  sends its value to process 0. In each plan the process's own rank stands at the same
  position of both partner lists.
\<close>

definition plans_ex :: "nat \<Rightarrow> plan" where
  "plans_ex p =
     (if p = 0 then
        \<lparr>NN_B2C_S = 2, NN_B2C_R = 3, ID_NN_B2C_S = (\<lambda>ID. ID), ID_NN_B2C_R = (\<lambda>ID. ID),
         GP_B2C_S = (\<lambda>ID. ID), GP_B2C_R = (\<lambda>ID. ID),
         Num_Snd_Grid_B2C = (\<lambda>q. if q < 2 then 1 else 0),
         Num_Rcv_Grid_B2C = (\<lambda>q. if q < 3 then 1 else 0),
         Index_Snd_Grid_B2C = (\<lambda>q LN. q), Index_Rcv_Grid_B2C = (\<lambda>q LN. (q + 2) mod 3)\<rparr>
      else if p = 1 then
        \<lparr>NN_B2C_S = 2, NN_B2C_R = 2, ID_NN_B2C_S = (\<lambda>ID. 1 - ID), ID_NN_B2C_R = (\<lambda>ID. 1 - ID),
         GP_B2C_S = (\<lambda>ID. ID), GP_B2C_R = (\<lambda>ID. ID),
         Num_Snd_Grid_B2C = (\<lambda>q. if q < 2 then 1 else 0),
         Num_Rcv_Grid_B2C = (\<lambda>q. if q < 2 then 1 else 0),
         Index_Snd_Grid_B2C = (\<lambda>q LN. q), Index_Rcv_Grid_B2C = (\<lambda>q LN. 1 - q)\<rparr>
      else
        \<lparr>NN_B2C_S = 1, NN_B2C_R = 0, ID_NN_B2C_S = (\<lambda>ID. 0), ID_NN_B2C_R = (\<lambda>ID. 0),
         GP_B2C_S = (\<lambda>ID. ID), GP_B2C_R = (\<lambda>ID. ID),
         Num_Snd_Grid_B2C = (\<lambda>q. if q = 0 then 1 else 0),
         Num_Rcv_Grid_B2C = (\<lambda>q. 0),
         Index_Snd_Grid_B2C = (\<lambda>q LN. 0), Index_Rcv_Grid_B2C = (\<lambda>q LN. 0)\<rparr>)"

definition data_B_ex :: "nat \<Rightarrow> real cells" where
  "data_B_ex p = (if p = 0 then [Some 10, Some 11] else if p = 1 then [Some 20, Some 21] else [Some 30])"

definition data_C_ex :: "nat \<Rightarrow> real cells" where
  "data_C_ex p = (if p = 0 then [None, None, None] else if p = 1 then [None, None] else [])"

definition ords_ex :: "nat \<Rightarrow> nat list" where
  "ords_ex p = (if p = 0 then [1, 0] else if p = 1 then [0] else [])"

text \<open>
  A run of two processes. Process 0 keeps its first value and sends the second to
  process 1, which has no value of its own. Every index is in one list and the counts
  match, but process 0 lists process 1 before itself among its send partners, while it
  is its only receive partner.
\<close>

definition plans_mis :: "nat \<Rightarrow> plan" where
  "plans_mis p =
     (if p = 0 then
        \<lparr>NN_B2C_S = 2, NN_B2C_R = 1, ID_NN_B2C_S = (\<lambda>ID. 1 - ID), ID_NN_B2C_R = (\<lambda>ID. 0),
         GP_B2C_S = (\<lambda>ID. ID), GP_B2C_R = (\<lambda>ID. ID),
         Num_Snd_Grid_B2C = (\<lambda>q. if q < 2 then 1 else 0),
         Num_Rcv_Grid_B2C = (\<lambda>q. if q = 0 then 1 else 0),
         Index_Snd_Grid_B2C = (\<lambda>q LN. q), Index_Rcv_Grid_B2C = (\<lambda>q LN. 0)\<rparr>
      else
        \<lparr>NN_B2C_S = 0, NN_B2C_R = 1, ID_NN_B2C_S = (\<lambda>ID. 0), ID_NN_B2C_R = (\<lambda>ID. 0),
         GP_B2C_S = (\<lambda>ID. ID), GP_B2C_R = (\<lambda>ID. ID),
         Num_Snd_Grid_B2C = (\<lambda>q. 0),
         Num_Rcv_Grid_B2C = (\<lambda>q. if q = 0 then 1 else 0),
         Index_Snd_Grid_B2C = (\<lambda>q LN. 0), Index_Rcv_Grid_B2C = (\<lambda>q LN. 0)\<rparr>)"

definition data_B_mis :: "nat \<Rightarrow> real cells" where
  "data_B_mis p = (if p = 0 then [Some 10, Some 20] else [])"

definition data_C_mis :: "nat \<Rightarrow> real cells" where
  "data_C_mis p = [None]"

definition ords_mis :: "nat \<Rightarrow> nat list" where
  "ords_mis p = (if p = 0 then [] else [0])"

text \<open>
  A run of two processes in which each has one value and process 0 receives both. Its
  receive partners are process 1 and then itself; its only send partner is itself.
\<close>

definition plans_end :: "nat \<Rightarrow> plan" where
  "plans_end p =
     (if p = 0 then
        \<lparr>NN_B2C_S = 1, NN_B2C_R = 2, ID_NN_B2C_S = (\<lambda>ID. 0), ID_NN_B2C_R = (\<lambda>ID. 1 - ID),
         GP_B2C_S = (\<lambda>ID. ID), GP_B2C_R = (\<lambda>ID. ID),
         Num_Snd_Grid_B2C = (\<lambda>q. if q = 0 then 1 else 0),
         Num_Rcv_Grid_B2C = (\<lambda>q. if q < 2 then 1 else 0),
         Index_Snd_Grid_B2C = (\<lambda>q LN. 0), Index_Rcv_Grid_B2C = (\<lambda>q LN. q)\<rparr>
      else
        \<lparr>NN_B2C_S = 1, NN_B2C_R = 0, ID_NN_B2C_S = (\<lambda>ID. 0), ID_NN_B2C_R = (\<lambda>ID. 0),
         GP_B2C_S = (\<lambda>ID. ID), GP_B2C_R = (\<lambda>ID. ID),
         Num_Snd_Grid_B2C = (\<lambda>q. if q = 0 then 1 else 0),
         Num_Rcv_Grid_B2C = (\<lambda>q. 0),
         Index_Snd_Grid_B2C = (\<lambda>q LN. 0), Index_Rcv_Grid_B2C = (\<lambda>q LN. 0)\<rparr>)"

definition data_B_end :: "nat \<Rightarrow> real cells" where
  "data_B_end p = (if p = 0 then [Some 10] else [Some 20])"

definition data_C_end :: "nat \<Rightarrow> real cells" where
  "data_C_end p = (if p = 0 then [None, None] else [])"

definition ords_end :: "nat \<Rightarrow> nat list" where
  "ords_end p = (if p = 0 then [0] else [])"

text \<open>
  The fields of the first configuration with a partition-B field of three values on
  process 0, whose plan names two, and a partition-C field of four cells there, where the
  plan names three.
\<close>

definition data_B_long :: "nat \<Rightarrow> real cells" where
  "data_B_long p = (if p = 0 then [Some 10, Some 11, Some 12] else data_B_ex p)"

definition data_C_long :: "real cells" where
  "data_C_long = [None, None, None, Some 99]"

subsection \<open>Sequences of writes\<close>

text \<open>
  Each copying loop of the routine is a sequence of writes of a value at an index.
  \<open>scatter\<close> performs such a sequence on an array; \<open>payload_of\<close> is the list of cells
  process \<open>p\<close> has for process \<open>q\<close>.
\<close>

definition scatter :: "(nat \<times> 'b) list \<Rightarrow> 'b list \<Rightarrow> 'b list" where
  "scatter ws W = fold (\<lambda>(k, v) W. W[k := v]) ws W"

definition payload_of :: "(nat \<Rightarrow> plan) \<Rightarrow> (nat \<Rightarrow> 'a cells) \<Rightarrow> nat \<Rightarrow> nat \<Rightarrow> 'a cells" where
  "payload_of plans data_B p q =
     map (\<lambda>LN. rd (data_B p) (Index_Snd_Grid_B2C (plans p) q LN))
         [0..<Num_Snd_Grid_B2C (plans p) q]"

text \<open>The writes of \<open>pack_partner\<close> for the partner at position \<open>ID\<close>, and the message sent to it.\<close>

definition snd_writes :: "plan \<Rightarrow> 'a cells \<Rightarrow> nat \<Rightarrow> (nat \<times> 'a option) list" where
  "snd_writes P data_B ID =
     map (\<lambda>LN. (GP_B2C_S P ID + LN, rd data_B (Index_Snd_Grid_B2C P (ID_NN_B2C_S P ID) LN)))
         [0..<Num_Snd_Grid_B2C P (ID_NN_B2C_S P ID)]"

definition snd_message :: "plan \<Rightarrow> 'a cells \<Rightarrow> nat \<Rightarrow> 'a message" where
  "snd_message P data_B ID =
     (ID_NN_B2C_S P ID,
      map (\<lambda>LN. rd data_B (Index_Snd_Grid_B2C P (ID_NN_B2C_S P ID) LN))
          [0..<Num_Snd_Grid_B2C P (ID_NN_B2C_S P ID)])"

text \<open>The receive posted for the partner at position \<open>ID\<close>; the positions of the partners other than the process itself; and the writes that complete the receive from the partner at position \<open>ID\<close>.\<close>

definition rcv_post :: "plan \<Rightarrow> nat \<Rightarrow> post" where
  "rcv_post P ID = (ID_NN_B2C_R P ID, GP_B2C_R P ID, Num_Rcv_Grid_B2C P (ID_NN_B2C_R P ID))"

definition rcv_partners :: "plan \<Rightarrow> nat \<Rightarrow> nat list" where
  "rcv_partners P myid' = filter (\<lambda>ID. ID_NN_B2C_R P ID \<noteq> myid') [0..<NN_B2C_R P]"

definition rcv_writes ::
  "(nat \<Rightarrow> plan) \<Rightarrow> (nat \<Rightarrow> 'a cells) \<Rightarrow> nat \<Rightarrow> nat \<Rightarrow> (nat \<times> 'a option) list" where
  "rcv_writes plans data_B q ID =
     map (\<lambda>LN. (GP_B2C_R (plans q) ID + LN,
                payload_of plans data_B (ID_NN_B2C_R (plans q) ID) q ! LN))
         [0..<Num_Rcv_Grid_B2C (plans q) (ID_NN_B2C_R (plans q) ID)]"

text \<open>The writes of the unpacking loop for the partner at position \<open>ID\<close>.\<close>

definition unp_writes :: "plan \<Rightarrow> nat \<Rightarrow> 'a cells \<Rightarrow> 'a cells \<Rightarrow> nat \<Rightarrow> (nat \<times> 'a option) list" where
  "unp_writes P myid' Work_Snd Work_Rcv ID =
     map (\<lambda>LN. (Index_Rcv_Grid_B2C P (ID_NN_B2C_R P ID) LN,
                if ID_NN_B2C_R P ID = myid' then rd Work_Snd (GP_B2C_S P ID + LN)
                else rd Work_Rcv (GP_B2C_R P ID + LN)))
         [0..<Num_Rcv_Grid_B2C P (ID_NN_B2C_R P ID)]"

text \<open>The indices of \<open>data_C\<close> that the unpacking loop assigns, in the order of its assignments.\<close>

definition unpack_targets :: "plan \<Rightarrow> nat list" where
  "unpack_targets P =
     concat (map (\<lambda>ID. map (\<lambda>LN. Index_Rcv_Grid_B2C P (ID_NN_B2C_R P ID) LN)
                          [0..<Num_Rcv_Grid_B2C P (ID_NN_B2C_R P ID)])
                 [0..<NN_B2C_R P])"


section \<open>Properties of the quadrature engine\<close>

lemma fold_concat: "fold f (concat xss) = fold (fold f) xss"
  by (induction xss) simp_all

lemma count_loops_length: "count_loops env = length (task_pairs env)"
proof -
  have inner: "fold (\<lambda>h_AN. Suc) hs n = n + length hs" for hs :: "nat list" and n :: nat
    by (induction hs arbitrary: n) auto
  have outer: "fold (\<lambda>Mc_AN Nloop. fold (\<lambda>h_AN Nloop. Nloop + 1) (g Mc_AN) Nloop) ms n
      = n + length (concat (map (\<lambda>Mc_AN. map (Pair Mc_AN) (g Mc_AN)) ms))"
    for ms :: "nat list" and n :: nat and g :: "nat \<Rightarrow> nat list"
    by (induction ms arbitrary: n) (simp_all add: inner)
  show ?thesis
    unfolding count_loops_def task_pairs_def by (simp only: outer)
qed

lemma write_pairs:
  "n + length ps \<le> length A \<Longrightarrow> length B = length A \<Longrightarrow>
   fold (\<lambda>(Mc_AN, h_AN) (OneD2Mc_AN, OneD2h_AN, Nloop).
           (OneD2Mc_AN[Nloop := Mc_AN], OneD2h_AN[Nloop := h_AN], Nloop + 1)) ps (A, B, n)
   = (take n A @ map fst ps @ drop (n + length ps) A,
      take n B @ map snd ps @ drop (n + length ps) B, n + length ps)"
proof (induction ps arbitrary: A B n)
  case Nil
  then show ?case by simp
next
  case (Cons p ps)
  obtain Mc h where p: "p = (Mc, h)" by (cases p)
  have n: "n < length A" "n < length B" using Cons.prems by auto
  have "take (Suc n) (A[n := Mc]) = take n A @ [Mc]"
    using n by (simp add: take_Suc_conv_app_nth)
  moreover have "take (Suc n) (B[n := h]) = take n B @ [h]"
    using n by (simp add: take_Suc_conv_app_nth)
  ultimately show ?case
    using Cons.prems Cons.IH[of "Suc n" "A[n := Mc]" "B[n := h]"] by (simp add: p)
qed

lemma fill_loops_pairs:
  "fill_loops env = fold (\<lambda>(Mc_AN, h_AN) (OneD2Mc_AN, OneD2h_AN, Nloop).
           (OneD2Mc_AN[Nloop := Mc_AN], OneD2h_AN[Nloop := h_AN], Nloop + 1)) (task_pairs env)"
  unfolding fill_loops_def task_pairs_def
  by (simp add: fold_concat fold_map comp_def)

lemma one_dimensionalize_eq:
  "one_dimensionalize env =
     (map fst (task_pairs env), map snd (task_pairs env), length (task_pairs env))"
  unfolding one_dimensionalize_def Let_def count_loops_length fill_loops_pairs
  by (subst write_pairs) simp_all

lemma distinct_pairs:
  "distinct ms \<Longrightarrow> (\<And>m. distinct (g m)) \<Longrightarrow>
   distinct (concat (map (\<lambda>Mc_AN. map (Pair Mc_AN) (g Mc_AN)) ms))"
  by (induction ms) (auto simp: distinct_map inj_on_def)

lemma distinct_task_pairs: "distinct (task_pairs env)"
  unfolding task_pairs_def by (rule distinct_pairs) simp_all

lemma set_task_pairs:
  "set (task_pairs env) =
     {(Mc_AN, h_AN). 1 \<le> Mc_AN \<and> Mc_AN \<le> Matomnum env \<and> h_AN \<le> FNAN env (M2G env Mc_AN)}"
  unfolding task_pairs_def by (fastforce simp del: upt_Suc)

lemma length_task_pairs:
  "length (task_pairs env) = (\<Sum>Mc_AN\<leftarrow>[1..<Matomnum env + 1]. FNAN env (M2G env Mc_AN) + 1)"
  unfolding task_pairs_def by (simp add: length_concat comp_def)

lemma fold_row:
  "fold (\<lambda>j T. T((i, j) := g j (T (i, j)))) [0..<n1] T (a, b) =
     (if a = i \<and> b < n1 then g b (T (a, b)) else T (a, b))"
proof (induction n1 arbitrary: a b)
  case 0
  show ?case by simp
next
  case (Suc n1)
  define f where "f = (\<lambda>j T. T((i, j) := g j (T (i, j))))"
  have step: "fold f [0..<Suc n1] T = f n1 (fold f [0..<n1] T)"
    by simp
  have IH: "fold f [0..<n1] T (a, b) = (if a = i \<and> b < n1 then g b (T (a, b)) else T (a, b))"
    for a b unfolding f_def by (rule Suc.IH)
  have fapp: "f j X = X((i, j) := g j (X (i, j)))" for j X
    by (simp add: f_def)
  have "f n1 (fold f [0..<n1] T) (a, b) =
      (if a = i \<and> b < Suc n1 then g b (T (a, b)) else T (a, b))"
    by (auto simp: fapp IH less_Suc_eq)
  then show ?case
    unfolding f_def [symmetric] step .
qed

lemma fold_block:
  "fold (\<lambda>i. fold (\<lambda>j T. T((i, j) := g i j (T (i, j)))) [0..<n1]) [0..<n0] T (a, b) =
     (if a < n0 \<and> b < n1 then g a b (T (a, b)) else T (a, b))"
proof (induction n0 arbitrary: a b)
  case 0
  show ?case by simp
next
  case (Suc n0)
  define f where "f = (\<lambda>i. fold (\<lambda>j T. T((i, j) := g i j (T (i, j)))) [0..<n1])"
  have step: "fold f [0..<Suc n0] T = f n0 (fold f [0..<n0] T)"
    by simp
  have IH: "fold f [0..<n0] T (a, b) = (if a < n0 \<and> b < n1 then g a b (T (a, b)) else T (a, b))"
    for a b unfolding f_def by (rule Suc.IH)
  have row: "f n0 X (a, b) = (if a = n0 \<and> b < n1 then g n0 b (X (a, b)) else X (a, b))"
    for X unfolding f_def by (rule fold_row)
  have "f n0 (fold f [0..<n0] T) (a, b) =
      (if a < Suc n0 \<and> b < n1 then g a b (T (a, b)) else T (a, b))"
    by (simp add: row IH less_Suc_eq)
  then show ?case
    unfolding f_def [symmetric] step .
qed

lemma load_block_apply:
  "load_block H idx_P Mc_AN h_AN NO0 NO1 T (a, b) =
     (if a < NO0 \<and> b < NO1 then H (idx_P, Mc_AN, h_AN, a, b) else T (a, b))"
  unfolding load_block_def by (rule fold_block [where g = "\<lambda>i j _. H (idx_P, Mc_AN, h_AN, i, j)"])

lemma grid_point_apply:
  "grid_point env s idx_P Mc_AN h_AN Gh_AN Mh_AN NO0 NO1 Nog T (a, b) =
     (if a < NO0 \<and> b < NO1 then
        T (a, b) + GridVol s
                    * Vlr_Grid s idx_P (MGridListAtom env Mc_AN (GListTAtoms1 env Mc_AN h_AN Nog))
                    * Orbs_Grid s Mc_AN (GListTAtoms1 env Mc_AN h_AN Nog) a
                    * (if G2ID env Gh_AN = myid env
                       then Orbs_Grid s Mh_AN (GListTAtoms2 env Mc_AN h_AN Nog) b
                       else Orbs_Grid_FNAN s Mc_AN h_AN Nog b)
      else T (a, b))"
proof (cases "G2ID env Gh_AN = myid env")
  case True
  show ?thesis
    unfolding grid_point_def Let_def using True
    by (simp add:
        fold_block [where g = "\<lambda>i j t. t + GridVol s
                    * Vlr_Grid s idx_P (MGridListAtom env Mc_AN (GListTAtoms1 env Mc_AN h_AN Nog))
                    * Orbs_Grid s Mc_AN (GListTAtoms1 env Mc_AN h_AN Nog) i
                    * Orbs_Grid s Mh_AN (GListTAtoms2 env Mc_AN h_AN Nog) j"])
next
  case False
  show ?thesis
    unfolding grid_point_def Let_def using False
    by (simp add:
        fold_block [where g = "\<lambda>i j t. t + GridVol s
                    * Vlr_Grid s idx_P (MGridListAtom env Mc_AN (GListTAtoms1 env Mc_AN h_AN Nog))
                    * Orbs_Grid s Mc_AN (GListTAtoms1 env Mc_AN h_AN Nog) i
                    * Orbs_Grid_FNAN s Mc_AN h_AN Nog j"])
qed

lemma grid_loop_apply:
  "fold (grid_point env s idx_P Mc_AN h_AN Gh_AN Mh_AN NO0 NO1) [0..<n] T (a, b) =
     (if a < NO0 \<and> b < NO1 then
        foldl (\<lambda>acc Nog.
              acc + GridVol s
                    * Vlr_Grid s idx_P (MGridListAtom env Mc_AN (GListTAtoms1 env Mc_AN h_AN Nog))
                    * Orbs_Grid s Mc_AN (GListTAtoms1 env Mc_AN h_AN Nog) a
                    * (if G2ID env Gh_AN = myid env
                       then Orbs_Grid s Mh_AN (GListTAtoms2 env Mc_AN h_AN Nog) b
                       else Orbs_Grid_FNAN s Mc_AN h_AN Nog b))
           (T (a, b)) [0..<n]
      else T (a, b))"
  by (induction n) (simp_all add: grid_point_apply)

lemma store_row:
  "fold (\<lambda>j H. H((p, m, h, i, j) := T (i, j))) [0..<n1] H (q, m', h', a, b) =
     (if q = p \<and> m' = m \<and> h' = h \<and> a = i \<and> b < n1 then T (a, b) else H (q, m', h', a, b))"
proof (induction n1 arbitrary: q m' h' a b)
  case 0
  show ?case by simp
next
  case (Suc n1)
  define f where "f = (\<lambda>j H. H((p, m, h, i, j) := T (i, j)))"
  have step: "fold f [0..<Suc n1] H = f n1 (fold f [0..<n1] H)"
    by simp
  have IH: "fold f [0..<n1] H (q, m', h', a, b) =
      (if q = p \<and> m' = m \<and> h' = h \<and> a = i \<and> b < n1 then T (a, b) else H (q, m', h', a, b))"
    for q m' h' a b unfolding f_def by (rule Suc.IH)
  have fapp: "f j X = X((p, m, h, i, j) := T (i, j))" for j X
    by (simp add: f_def)
  have "f n1 (fold f [0..<n1] H) (q, m', h', a, b) =
      (if q = p \<and> m' = m \<and> h' = h \<and> a = i \<and> b < Suc n1 then T (a, b) else H (q, m', h', a, b))"
    by (auto simp: fapp IH less_Suc_eq)
  then show ?case
    unfolding f_def [symmetric] step .
qed

lemma store_block_apply:
  "store_block T p m h NO0 NO1 H (q, m', h', a, b) =
     (if q = p \<and> m' = m \<and> h' = h \<and> a < NO0 \<and> b < NO1 then T (a, b) else H (q, m', h', a, b))"
  unfolding store_block_def
proof (induction NO0 arbitrary: q m' h' a b)
  case 0
  show ?case by simp
next
  case (Suc n0)
  define f where "f = (\<lambda>i. fold (\<lambda>j H. H((p, m, h, i, j) := T (i, j))) [0..<NO1])"
  have step: "fold f [0..<Suc n0] H = f n0 (fold f [0..<n0] H)"
    by simp
  have IH: "fold f [0..<n0] H (q, m', h', a, b) =
      (if q = p \<and> m' = m \<and> h' = h \<and> a < n0 \<and> b < NO1 then T (a, b) else H (q, m', h', a, b))"
    for q m' h' a b unfolding f_def by (rule Suc.IH)
  have row: "f n0 X (q, m', h', a, b) =
      (if q = p \<and> m' = m \<and> h' = h \<and> a = n0 \<and> b < NO1 then T (a, b) else X (q, m', h', a, b))"
    for X q m' h' a b unfolding f_def by (rule store_row)
  have "f n0 (fold f [0..<n0] H) (q, m', h', a, b) =
      (if q = p \<and> m' = m \<and> h' = h \<and> a < Suc n0 \<and> b < NO1 then T (a, b) else H (q, m', h', a, b))"
    by (simp add: row IH less_Suc_eq)
  then show ?case
    unfolding f_def [symmetric] step .
qed

lemma quad_task_Hlr:
  "quad_task env idx_P Mc_AN h_AN (T, s) = (T', s') \<Longrightarrow>
   s' = s\<lparr>Hlr := (\<lambda>k. if block_entry env idx_P {(Mc_AN, h_AN)} k then quad_block env s k else Hlr s k)\<rparr>"
  unfolding quad_task_def Let_def
  by (auto simp: fun_eq_iff store_block_apply grid_loop_apply load_block_apply quad_sum_def
      NO0_of_def NO1_of_def block_entry_def quad_block_def)

lemma quad_sum_Hlr_update [simp]:
  "quad_sum env (s\<lparr>Hlr := H\<rparr>) idx_P Mc_AN h_AN i j seed = quad_sum env s idx_P Mc_AN h_AN i j seed"
  by (simp add: quad_sum_def cong: if_cong)

lemma tasks_Hlr:
  "distinct ps \<Longrightarrow>
   snd (fold (\<lambda>(Mc_AN, h_AN). quad_task env idx_P Mc_AN h_AN) ps (T, s)) =
     s\<lparr>Hlr := (\<lambda>k. if block_entry env idx_P (set ps) k then quad_block env s k else Hlr s k)\<rparr>"
proof (induction ps rule: rev_induct)
  case Nil
  then show ?case by (simp add: block_entry_def)
next
  case (snoc p ps)
  obtain Mc h where p: "p = (Mc, h)" by (cases p)
  define H1 where "H1 = (\<lambda>k. if block_entry env idx_P (set ps) k then quad_block env s k else Hlr s k)"
  define H2 where "H2 = (\<lambda>k. if block_entry env idx_P (set (ps @ [p])) k then quad_block env s k else Hlr s k)"
  obtain T1 s1 where f: "fold (\<lambda>(Mc_AN, h_AN). quad_task env idx_P Mc_AN h_AN) ps (T, s) = (T1, s1)"
    by (cases "fold (\<lambda>(Mc_AN, h_AN). quad_task env idx_P Mc_AN h_AN) ps (T, s)")
  obtain T2 s2 where q: "quad_task env idx_P Mc h (T1, s1) = (T2, s2)"
    by (cases "quad_task env idx_P Mc h (T1, s1)")
  have s1: "s1 = s\<lparr>Hlr := H1\<rparr>"
    using snoc f by (simp add: H1_def)
  have notin: "(Mc, h) \<notin> set ps" using snoc.prems p by simp
  have "(if block_entry env idx_P {(Mc, h)} k then quad_block env s1 k else Hlr s1 k) = H2 k" for k
    using notin by (cases k) (auto simp: block_entry_def quad_block_def H1_def H2_def p s1)
  then have "(\<lambda>k. if block_entry env idx_P {(Mc, h)} k then quad_block env s1 k else Hlr s1 k) = H2"
    by (rule ext)
  then have "s2 = s1\<lparr>Hlr := H2\<rparr>"
    using quad_task_Hlr [OF q] by (simp only:)
  then have "s2 = s\<lparr>Hlr := H2\<rparr>"
    by (simp add: s1)
  then show ?case using f q p by (simp add: H2_def)
qed

lemma Calc_MatrixElements_Vlr_tasks:
  "Calc_MatrixElements_Vlr env T0 idx_P s =
     snd (fold (\<lambda>(Mc_AN, h_AN). quad_task env idx_P Mc_AN h_AN) (task_pairs env) (T0, s))"
proof -
  have eq: "fold (\<lambda>Nloop. quad_task env idx_P (map fst ps ! Nloop) (map snd ps ! Nloop)) [0..<length ps] st
      = fold (\<lambda>(Mc_AN, h_AN). quad_task env idx_P Mc_AN h_AN) ps st" for ps st
  proof -
    have "fold (\<lambda>(Mc_AN, h_AN). quad_task env idx_P Mc_AN h_AN) (map (\<lambda>i. ps ! i) [0..<length ps]) st
      = fold (\<lambda>Nloop. quad_task env idx_P (map fst ps ! Nloop) (map snd ps ! Nloop)) [0..<length ps] st"
      unfolding fold_map by (rule fold_cong) (auto simp: case_prod_beta)
    then show ?thesis by (simp add: map_nth)
  qed
  show ?thesis
    unfolding Calc_MatrixElements_Vlr_def one_dimensionalize_eq prod.case eq ..
qed

lemma Calc_MatrixElements_Vlr_eq:
  "Calc_MatrixElements_Vlr env T0 idx_P s =
     s\<lparr>Hlr := (\<lambda>k. if block_entry env idx_P (set (task_pairs env)) k
                      then quad_block env s k else Hlr s k)\<rparr>"
  unfolding Calc_MatrixElements_Vlr_tasks by (rule tasks_Hlr [OF distinct_task_pairs])

text \<open>
  The tasks write disjoint blocks and read, besides the read-only arrays, only their own
  block, so the order in which the workers run them does not matter: two runs over the
  same tasks in different orders, with any scratch blocks, end in the same state.
\<close>

lemma task_order_irrelevant:
  assumes "distinct ps" and "distinct ps'" and "set ps = set ps'"
  shows "snd (fold (\<lambda>(Mc_AN, h_AN). quad_task env idx_P Mc_AN h_AN) ps (T, s)) =
         snd (fold (\<lambda>(Mc_AN, h_AN). quad_task env idx_P Mc_AN h_AN) ps' (T', s))"
  by (simp only: tasks_Hlr [OF assms(1)] tasks_Hlr [OF assms(2)] assms(3))

text \<open>\<open>Set_Hlr\<close> calls the routine for the source indices \<open>1 .. Matomnum\<close> and no other.\<close>

lemma Set_Hlr_fold:
  "Vlr_Grid (fold (Calc_MatrixElements_Vlr env T0) is s) = Vlr_Grid s \<and>
   Orbs_Grid (fold (Calc_MatrixElements_Vlr env T0) is s) = Orbs_Grid s \<and>
   Orbs_Grid_FNAN (fold (Calc_MatrixElements_Vlr env T0) is s) = Orbs_Grid_FNAN s \<and>
   GridVol (fold (Calc_MatrixElements_Vlr env T0) is s) = GridVol s \<and>
   (q \<notin> set is \<longrightarrow> Hlr (fold (Calc_MatrixElements_Vlr env T0) is s) (q, m, h, a, b)
          = Hlr s (q, m, h, a, b))"
proof (induction "is" arbitrary: s)
  case Nil
  show ?case by simp
next
  case (Cons i "is")
  have f: "Vlr_Grid (Calc_MatrixElements_Vlr env T0 i s) = Vlr_Grid s"
    "Orbs_Grid (Calc_MatrixElements_Vlr env T0 i s) = Orbs_Grid s"
    "Orbs_Grid_FNAN (Calc_MatrixElements_Vlr env T0 i s) = Orbs_Grid_FNAN s"
    "GridVol (Calc_MatrixElements_Vlr env T0 i s) = GridVol s"
    "q \<noteq> i \<Longrightarrow> Hlr (Calc_MatrixElements_Vlr env T0 i s) (q, m, h, a, b) = Hlr s (q, m, h, a, b)"
    by (simp_all add: Calc_MatrixElements_Vlr_eq block_entry_def)
  show ?case
    using Cons [of "Calc_MatrixElements_Vlr env T0 i s"] f by auto
qed

lemma Set_Hlr_frame:
  "Vlr_Grid (Set_Hlr env T0 s) = Vlr_Grid s \<and> Orbs_Grid (Set_Hlr env T0 s) = Orbs_Grid s \<and>
   Orbs_Grid_FNAN (Set_Hlr env T0 s) = Orbs_Grid_FNAN s \<and> GridVol (Set_Hlr env T0 s) = GridVol s \<and>
   (\<not> (1 \<le> q \<and> q \<le> Matomnum env) \<longrightarrow> Hlr (Set_Hlr env T0 s) (q, m, h, a, b) = Hlr s (q, m, h, a, b))"
proof -
  have "\<not> (1 \<le> q \<and> q \<le> Matomnum env) \<Longrightarrow> q \<notin> set [1..<Matomnum env + 1]"
    by auto
  then show ?thesis
    unfolding Set_Hlr_def using Set_Hlr_fold [of env T0 "[1..<Matomnum env + 1]" s q m h a b]
    by blast
qed

section \<open>Properties of the coefficient loop\<close>

lemma sdiv_nonneg: "0 \<le> a \<Longrightarrow> 0 < b \<Longrightarrow> (a::int) sdiv b = a div b"
  by (cases "a = 0") (simp_all add: signed_divide_int_def sgn_if)

lemma int32_id: "- 2147483648 \<le> x \<Longrightarrow> x < 2147483648 \<Longrightarrow> int32 x = x"
  by (simp add: int32_def)

lemma int32_nonneg: "0 \<le> x \<Longrightarrow> x < 2147483648 \<Longrightarrow> int32 x = x"
  by (simp add: int32_def)

lemma int_div_pos: "0 \<le> a \<Longrightarrow> 0 < b \<Longrightarrow> int_div a b = Inr (a div b)"
  by (simp add: int_div_def sdiv_nonneg)

text \<open>
  The model on the inputs where the program leaves the range of \<open>int\<close> or divides by
  zero: on 4096 processes and a grid of 1024 points a side the product \<open>myid*N2D\<close> of
  process 2048 wraps and its \<open>GNs\<close> is negative, and so is the index \<open>k2\<close> of its first
  grid point; with no process, or with a grid dimension 0, the program stops at an
  integer division.
\<close>

lemma GNs_of_wraps: "GNs_of recip_large 4096 2048 = Inr (- 536869888)"
proof -
  have n: "Ngrid1 recip_large = 1024" "Ngrid2 recip_large = 1024" "Ngrid3 recip_large = 1024"
    by (simp_all add: recip_large_def recip_ex_def)
  have a1: "int32 (1024 * 1024) = 1048576" by (simp add: int32_def)
  have a2: "int32 (2048 * 1048576) = - 2147483648" by (simp add: int32_def)
  have a3: "int32 (int32 (- 2147483648 + 4096) - 1) = - 2147479553" by (simp add: int32_def)
  have a4: "int_div (- 2147479553) 4096 = Inr (- 524287)"
    by (simp add: int_div_def signed_divide_int_def)
  have a5: "int32 (- 524287 * 1024) = - 536869888" by (simp add: int32_def)
  show ?thesis
    unfolding GNs_of_def Let_def n a1 a2 a3 a4 sum.case a5 ..
qed

lemma grid_index_wraps: "grid_index recip_large (- 536869888) = Inr (0, - 1023, - 511)"
proof -
  have n: "Ngrid1 recip_large = 1024" "Ngrid2 recip_large = 1024"
    by (simp_all add: recip_large_def recip_ex_def)
  have a1: "int32 (1024 * 1024) = 1048576" by (simp add: int32_def)
  have a2: "int_div (- 536869888) 1048576 = Inr (- 511)"
    by (simp add: int_div_def signed_divide_int_def)
  have a3: "int32 (int32 (- 511 * 1024) * 1024) = - 535822336" by (simp add: int32_def)
  have a4: "int32 (- 536869888 - - 535822336) = - 1047552" by (simp add: int32_def)
  have a5: "int_div (- 1047552) 1024 = Inr (- 1023)"
    by (simp add: int_div_def signed_divide_int_def)
  have a6: "int32 (- 1023 * 1024) = - 1047552" by (simp add: int32_def)
  have a7: "int32 (- 1047552 - - 1047552) = 0" by (simp add: int32_def)
  show ?thesis
    unfolding grid_index_def n a1 a2 sum.case a3 a4 a5 a6 a7 ..
qed

lemma GNs_of_no_process: "GNs_of g 0 myid' = Inl Integer_Division_By_Zero"
  by (simp add: GNs_of_def int_div_def)

lemma grid_index_empty: "grid_index recip_empty GN = Inl Integer_Division_By_Zero"
proof -
  have n: "Ngrid1 recip_empty = 0" by (simp add: recip_empty_def recip_ex_def)
  have a1: "int32 (Ngrid2 recip_empty * 0) = 0" by (simp add: int32_def)
  show ?thesis
    unfolding grid_index_def n a1 by (simp add: int_div_def)
qed

text \<open>
  \<open>GNs\<close> is the first index of the block of the process, \<open>\<lceil>myid * N2D / numprocs\<rceil> * Ngrid1\<close>,
  as long as the expression stays in the range of \<open>int\<close>.
\<close>

lemma GNs_of_in_range:
  assumes "0 < Ngrid1 g" and "0 < Ngrid2 g" and "0 < Ngrid3 g" and "0 < numprocs" and "0 \<le> myid'"
    and "Ngrid3 g * Ngrid2 g < 2147483648"
    and "myid' * (Ngrid3 g * Ngrid2 g) + numprocs < 2147483648"
    and "(myid' * (Ngrid3 g * Ngrid2 g) + numprocs - 1) div numprocs * Ngrid1 g < 2147483648"
  shows "GNs_of g numprocs myid' =
           Inr ((myid' * (Ngrid3 g * Ngrid2 g) + numprocs - 1) div numprocs * Ngrid1 g)"
    and "0 \<le> (myid' * (Ngrid3 g * Ngrid2 g) + numprocs - 1) div numprocs * Ngrid1 g"
proof -
  define N2D where "N2D = Ngrid3 g * Ngrid2 g"
  define q where "q = (myid' * N2D + numprocs - 1) div numprocs"
  have N2D: "0 < N2D" "N2D < 2147483648" using assms by (simp_all add: N2D_def)
  have m: "0 \<le> myid' * N2D" using assms N2D by simp
  have w1: "int32 (Ngrid3 g * Ngrid2 g) = N2D"
    using N2D by (simp add: int32_nonneg N2D_def)
  have w2: "int32 (myid' * N2D) = myid' * N2D"
    using m assms(4,7) by (simp add: int32_nonneg N2D_def)
  have w3: "int32 (myid' * N2D + numprocs) = myid' * N2D + numprocs"
    using m assms(4,7) by (simp add: int32_nonneg N2D_def)
  have w4: "int32 (myid' * N2D + numprocs - 1) = myid' * N2D + numprocs - 1"
    using m assms(4,7) by (simp add: int32_nonneg N2D_def)
  have d: "int_div (myid' * N2D + numprocs - 1) numprocs = Inr q"
    unfolding q_def using m assms(4) by (simp add: int_div_pos)
  have q0: "0 \<le> q"
    unfolding q_def using m assms(4) by (simp add: pos_imp_zdiv_nonneg_iff)
  then have g0: "0 \<le> q * Ngrid1 g" using assms(1) by simp
  have w5: "int32 (q * Ngrid1 g) = q * Ngrid1 g"
    using g0 assms(8) by (simp add: int32_nonneg q_def N2D_def)
  show "GNs_of g numprocs myid' =
           Inr ((myid' * (Ngrid3 g * Ngrid2 g) + numprocs - 1) div numprocs * Ngrid1 g)"
    unfolding GNs_of_def Let_def w1 w2 w3 w4 d
    by (simp add: w5) (simp add: q_def N2D_def)
  show "0 \<le> (myid' * (Ngrid3 g * Ngrid2 g) + numprocs - 1) div numprocs * Ngrid1 g"
    using g0 by (simp add: q_def N2D_def)
qed

text \<open>The indices of a point of the grid.\<close>

lemma grid_index_facts:
  assumes "0 < Ngrid1 g" and "0 < Ngrid2 g" and "0 < Ngrid3 g"
    and "Ngrid3 g * Ngrid2 g * Ngrid1 g < 2147483648"
    and "0 \<le> GN" and "GN < Ngrid3 g * Ngrid2 g * Ngrid1 g"
  shows "\<exists>k1 k2 k3. grid_index g GN = Inr (k1, k2, k3) \<and>
           GN = k3 * Ngrid2 g * Ngrid1 g + k2 * Ngrid1 g + k1 \<and>
           0 \<le> k1 \<and> k1 < Ngrid1 g \<and> 0 \<le> k2 \<and> k2 < Ngrid2 g \<and> 0 \<le> k3 \<and> k3 < Ngrid3 g"
proof -
  define N1 where "N1 = Ngrid1 g"
  define N2 where "N2 = Ngrid2 g"
  define N3 where "N3 = Ngrid3 g"
  define k3 where "k3 = GN div (N2 * N1)"
  define r where "r = GN - k3 * N2 * N1"
  define k2 where "k2 = r div N1"
  have N: "0 < N1" "0 < N2" "0 < N3" "0 < N2 * N1" using assms by (simp_all add: N1_def N2_def N3_def)
  have big: "N3 * N2 * N1 < 2147483648" and GN1: "GN < N3 * N2 * N1"
    using assms by (simp_all add: N1_def N2_def N3_def)
  have GNr: "GN < 2147483648" using big GN1 by simp
  have "1 * (N2 * N1) \<le> N3 * (N2 * N1)" using N by (intro mult_right_mono) simp_all
  then have N21: "N2 * N1 < 2147483648" using big by (simp add: mult.assoc)
  have r: "r = GN mod (N2 * N1)"
    unfolding r_def k3_def by (simp add: minus_div_mult_eq_mod mult.assoc)
  have r0: "0 \<le> r" and r1: "r < N2 * N1" using N by (simp_all add: r)
  have k30: "0 \<le> k3" unfolding k3_def using assms(5) N by (simp add: pos_imp_zdiv_nonneg_iff)
  have k20: "0 \<le> k2" unfolding k2_def using r0 N by (simp add: pos_imp_zdiv_nonneg_iff)
  have k21: "k2 < N2" unfolding k2_def using r1 N
  proof -
    have "r div N1 * N1 + r mod N1 = r" by simp
    moreover have "0 \<le> r mod N1" using N by simp
    ultimately have "r div N1 * N1 < N2 * N1" using r1 by linarith
    then show "r div N1 < N2" using N by (simp add: mult_less_cancel_right)
  qed
  have k1: "r - k2 * N1 = r mod N1"
    unfolding k2_def by (simp add: minus_div_mult_eq_mod)
  have k10: "0 \<le> r - k2 * N1" and k11: "r - k2 * N1 < N1"
    unfolding k1 using N by simp_all
  have p3: "0 \<le> k3 * N2 * N1" using k30 N by simp
  have p3': "k3 * N2 * N1 \<le> GN" using r0 by (simp add: r_def)
  have "k3 * (N2 * N1) < N3 * (N2 * N1)" using p3' GN1 by (simp add: mult.assoc)
  then have k31: "k3 < N3" using N by (simp add: mult_less_cancel_right)
  have p2: "0 \<le> k3 * N2" using k30 N by simp
  have "k3 * N2 * 1 \<le> k3 * N2 * N1" using p2 N by (intro mult_left_mono) simp_all
  then have p2': "k3 * N2 \<le> GN" using p3' by simp
  have q2: "0 \<le> k2 * N1" using k20 N by simp
  have q2': "k2 * N1 \<le> r" using k10 by simp
  have rr: "r < 2147483648" using r1 N21 by simp
  have N1r: "N1 < 2147483648"
  proof -
    have "1 * N1 \<le> N2 * N1" using N by (intro mult_right_mono) simp_all
    then show ?thesis using N21 by simp
  qed
  have w0: "int32 (N2 * N1) = N2 * N1" using N N21 by (simp add: int32_nonneg)
  have d3: "int_div GN (N2 * N1) = Inr k3"
    unfolding k3_def using assms(5) N by (simp add: int_div_pos)
  have w1: "int32 (k3 * N2) = k3 * N2" using p2 p2' GNr by (simp add: int32_nonneg)
  have w2: "int32 (k3 * N2 * N1) = k3 * N2 * N1" using p3 p3' GNr by (simp add: int32_nonneg)
  have w3: "int32 (GN - k3 * N2 * N1) = r" using r0 rr by (simp add: int32_nonneg r_def)
  have d2: "int_div r N1 = Inr k2"
    unfolding k2_def using r0 N by (simp add: int_div_pos)
  have w4: "int32 (k2 * N1) = k2 * N1" using q2 q2' rr by (simp add: int32_nonneg)
  have w5: "int32 (r - k2 * N1) = r - k2 * N1" using k10 k11 N1r by (simp add: int32_nonneg)
  have gi: "grid_index g GN = Inr (r - k2 * N1, k2, k3)"
    unfolding grid_index_def N1_def [symmetric] N2_def [symmetric] w0 d3
    by (simp add: w1 w2 w3 d2 w4 w5)
  have GN: "GN = k3 * N2 * N1 + k2 * N1 + (r - k2 * N1)"
    by (simp add: r_def)
  show ?thesis
    unfolding gi N1_def [symmetric] N2_def [symmetric] N3_def [symmetric]
    using GN k10 k11 k20 k21 k30 k31 by blast
qed

lemma fold_axis_spec:
  assumes "0 \<le> k" and "k < N" and "N < 2147483648"
  shows "fold_axis k N = spec_fold k N"
proof -
  have "int32 (k - N) = k - N" using assms by (simp add: int32_id)
  moreover have "N sdiv 2 = N div 2" using assms by (simp add: sdiv_nonneg)
  ultimately show ?thesis by (simp add: fold_axis_def spec_fold_def)
qed

lemma dims_in_range:
  assumes "0 < (N1::int)" and "0 < N2" and "0 < N3" and "N3 * N2 * N1 < 2147483648"
  shows "N1 < 2147483648" and "N2 < 2147483648" and "N3 < 2147483648"
proof -
  have a: "1 * (N2 * N1) \<le> N3 * (N2 * N1)" using assms by (intro mult_right_mono) simp_all
  have b: "1 * N1 \<le> N2 * N1" using assms by (intro mult_right_mono) simp_all
  have c: "N2 * 1 \<le> N2 * N1" using assms by (intro mult_left_mono) simp_all
  have "0 < N2 * N1" using assms by simp
  then have "1 \<le> N2 * N1" by linarith
  then have d: "N3 * 1 \<le> N3 * (N2 * N1)" using assms by (intro mult_left_mono) simp_all
  show "N1 < 2147483648" using a b assms(4) by (simp add: mult.assoc)
  show "N2 < 2147483648" using a c assms(4) by (simp add: mult.assoc)
  show "N3 < 2147483648" using d assms(4) by (simp add: mult.assoc)
qed

lemma recip_vector_spec:
  assumes "grid_index g GN = Inr (k1, k2, k3)"
    and "0 \<le> k1" and "k1 < Ngrid1 g" and "0 \<le> k2" and "k2 < Ngrid2 g" and "0 \<le> k3" and "k3 < Ngrid3 g"
    and "Ngrid3 g * Ngrid2 g * Ngrid1 g < 2147483648"
  shows "recip_vector g GN =
     Inr (spec_G g (k1, k2, k3) 1, spec_G g (k1, k2, k3) 2, spec_G g (k1, k2, k3) 3)"
proof -
  have pos: "0 < Ngrid1 g" "0 < Ngrid2 g" "0 < Ngrid3 g" using assms by simp_all
  note r = dims_in_range [OF pos assms(8)]
  have "fold_axis k1 (Ngrid1 g) = spec_fold k1 (Ngrid1 g)"
    "fold_axis k2 (Ngrid2 g) = spec_fold k2 (Ngrid2 g)"
    "fold_axis k3 (Ngrid3 g) = spec_fold k3 (Ngrid3 g)"
    using assms r by (simp_all add: fold_axis_spec)
  then show ?thesis
    by (simp add: recip_vector_def assms(1) spec_G_def Let_def)
qed

lemma Vlrk_coeff_pos:
  "0 < KK \<Longrightarrow> Vlrk_coeff tmp0 sigma KK th =
     Inr (tmp0 / KK * exp (- sigma * sigma * KK / 2) * cos th,
          - tmp0 / KK * exp (- sigma * sigma * KK / 2) * sin th)"
  by (simp add: Vlrk_coeff_def checked_div_def)

lemma Vlrk_coeff_nonpos: "\<not> 0 < KK \<Longrightarrow> Vlrk_coeff tmp0 sigma KK th = Inr (0, 0)"
  by (simp add: Vlrk_coeff_def)

lemma Vlrk_coeff_total: "\<exists>re im. Vlrk_coeff tmp0 sigma KK th = Inr (re, im)"
  by (cases "0 < KK") (simp_all add: Vlrk_coeff_pos Vlrk_coeff_nonpos)

text \<open>
  The conditions under which the grid points of the calling process are points of the
  grid: positive dimensions, a grid whose flat indices are values of \<open>int\<close>, and a block
  \<open>GNs ..< GNs + My_NumGridB_CB\<close> inside the grid.
\<close>

lemma block_point:
  assumes "0 < Ngrid1 g" and "0 < Ngrid2 g" and "0 < Ngrid3 g"
    and "Ngrid3 g * Ngrid2 g * Ngrid1 g < 2147483648"
    and "0 \<le> GNs" and "GNs + int My_NumGridB_CB \<le> Ngrid3 g * Ngrid2 g * Ngrid1 g"
    and "BN_CB < My_NumGridB_CB"
  shows "int32 (int BN_CB + GNs) = int BN_CB + GNs"
    and "\<exists>k1 k2 k3. grid_index g (int BN_CB + GNs) = Inr (k1, k2, k3) \<and>
           int BN_CB + GNs = k3 * Ngrid2 g * Ngrid1 g + k2 * Ngrid1 g + k1 \<and>
           0 \<le> k1 \<and> k1 < Ngrid1 g \<and> 0 \<le> k2 \<and> k2 < Ngrid2 g \<and> 0 \<le> k3 \<and> k3 < Ngrid3 g"
proof -
  have a: "0 \<le> int BN_CB + GNs" using assms(5) by simp
  have b: "int BN_CB + GNs < Ngrid3 g * Ngrid2 g * Ngrid1 g" using assms(6,7) by simp
  show "int32 (int BN_CB + GNs) = int BN_CB + GNs"
    using a b assms(4) by (simp add: int32_nonneg)
  show "\<exists>k1 k2 k3. grid_index g (int BN_CB + GNs) = Inr (k1, k2, k3) \<and>
           int BN_CB + GNs = k3 * Ngrid2 g * Ngrid1 g + k2 * Ngrid1 g + k1 \<and>
           0 \<le> k1 \<and> k1 < Ngrid1 g \<and> 0 \<le> k2 \<and> k2 < Ngrid2 g \<and> 0 \<le> k3 \<and> k3 < Ngrid3 g"
    using assms(1-4) a b by (rule grid_index_facts)
qed

lemma Vlrk_point_total:
  assumes "0 < Ngrid1 g" and "0 < Ngrid2 g" and "0 < Ngrid3 g"
    and "Ngrid3 g * Ngrid2 g * Ngrid1 g < 2147483648"
    and "0 \<le> GNs" and "GNs + int My_NumGridB_CB \<le> Ngrid3 g * Ngrid2 g * Ngrid1 g"
    and "BN_CB < My_NumGridB_CB"
  shows "\<exists>re im. Vlrk_point g sigma tmp0 GNs idx_P BN_CB = Inr (re, im)"
proof -
  obtain k1 k2 k3 where k: "grid_index g (int BN_CB + GNs) = Inr (k1, k2, k3)"
    using block_point(2) [OF assms] by blast
  obtain Gx Gy Gz where rv: "recip_vector g (int BN_CB + GNs) = Inr (Gx, Gy, Gz)"
    by (simp add: recip_vector_def k Let_def)
  show ?thesis
    unfolding Vlrk_point_def Let_def block_point(1) [OF assms] rv
    by (simp add: Vlrk_coeff_total)
qed

lemma Vlrk_point_zero:
  "KK_of g (int32 (int BN_CB + GNs)) = Inr 0 \<Longrightarrow>
   Vlrk_point g sigma tmp0 GNs idx_P BN_CB = Inr (0, 0)"
  unfolding Vlrk_point_def Let_def KK_of_def
  by (cases "recip_vector g (int32 (int BN_CB + GNs))") (auto simp: Vlrk_coeff_nonpos)

lemma Vlrk_point_spec:
  assumes "int32 (int BN_CB + GNs) = int BN_CB + GNs"
    and "grid_index g (int BN_CB + GNs) = Inr (k1, k2, k3)"
    and "0 \<le> k1" and "k1 < Ngrid1 g" and "0 \<le> k2" and "k2 < Ngrid2 g" and "0 \<le> k3" and "k3 < Ngrid3 g"
    and "Ngrid3 g * Ngrid2 g * Ngrid1 g < 2147483648"
    and pos: "0 < spec_K2 g (k1, k2, k3)"
  shows "Vlrk_point g 1 (4 * pi / Cell_Volume g) GNs idx_P BN_CB =
     Inr (spec_magnitude g (k1, k2, k3) * cos (spec_phase g (k1, k2, k3) idx_P),
          spec_magnitude g (k1, k2, k3) * sin (spec_phase g (k1, k2, k3) idx_P))"
proof -
  define Gx where "Gx = spec_G g (k1, k2, k3) 1"
  define Gy where "Gy = spec_G g (k1, k2, k3) 2"
  define Gz where "Gz = spec_G g (k1, k2, k3) 3"
  define K2 where "K2 = spec_K2 g (k1, k2, k3)"
  define Gr where "Gr = spec_phase g (k1, k2, k3) idx_P"
  have rv: "recip_vector g (int BN_CB + GNs) = Inr (Gx, Gy, Gz)"
    unfolding Gx_def Gy_def Gz_def using assms(2-9) by (rule recip_vector_spec)
  have KK: "Gx * Gx + Gy * Gy + Gz * Gz = K2"
    by (simp add: K2_def spec_K2_def Gx_def Gy_def Gz_def power2_eq_square)
  have th: "- Gx * Gxyz g idx_P 1 + - Gy * Gxyz g idx_P 2 + - Gz * Gxyz g idx_P 3 = - Gr"
    by (simp add: Gr_def spec_phase_def Gx_def Gy_def Gz_def)
  have "Vlrk_point g 1 (4 * pi / Cell_Volume g) GNs idx_P BN_CB =
      Vlrk_coeff (4 * pi / Cell_Volume g) 1 K2 (- Gr)"
    unfolding Vlrk_point_def Let_def assms(1) rv sum.case prod.case KK th ..
  also have "\<dots> = Inr (spec_magnitude g (k1, k2, k3) * cos Gr, spec_magnitude g (k1, k2, k3) * sin Gr)"
    using pos by (simp add: Vlrk_coeff_pos K2_def spec_magnitude_def)
  finally show ?thesis by (simp add: Gr_def)
qed

lemma spec_coefficient_parts:
  "Complex (spec_magnitude g k * cos (spec_phase g k idx_P))
           (spec_magnitude g k * sin (spec_phase g k idx_P)) = spec_coefficient g k idx_P"
  by (simp add: spec_coefficient_def cis_conv_exp [symmetric] complex_eq_iff)

text \<open>The two loops store at every point what the body computes there.\<close>

lemma fill_points_Inr:
  assumes "\<And>b. b \<in> set bs \<Longrightarrow> \<exists>re im. f idx_P b = Inr (re, im)"
    and "\<And>b. b \<in> set bs \<Longrightarrow> b < My_Max_NumGridB"
  shows "\<exists>Re' Im'. fill_points f My_Max_NumGridB idx_P bs (ReVlrk, ImVlrk) = Inr (Re', Im') \<and>
     (\<forall>i b. (i = idx_P \<and> b \<in> set bs \<longrightarrow> f i b = Inr (Re' (i, b), Im' (i, b))) \<and>
            (\<not> (i = idx_P \<and> b \<in> set bs) \<longrightarrow> Re' (i, b) = ReVlrk (i, b) \<and> Im' (i, b) = ImVlrk (i, b)))"
  using assms
proof (induction bs arbitrary: ReVlrk ImVlrk)
  case Nil
  show ?case by simp
next
  case (Cons b bs)
  obtain re im where fb: "f idx_P b = Inr (re, im)"
    using Cons.prems(1) [of b] by auto
  have bb: "b < My_Max_NumGridB" using Cons.prems(2) [of b] by simp
  have p1: "\<And>c. c \<in> set bs \<Longrightarrow> \<exists>re im. f idx_P c = Inr (re, im)"
    using Cons.prems(1) by simp
  have p2: "\<And>c. c \<in> set bs \<Longrightarrow> c < My_Max_NumGridB"
    using Cons.prems(2) by simp
  obtain Re' Im' where
    r: "fill_points f My_Max_NumGridB idx_P bs (ReVlrk((idx_P, b) := re), ImVlrk((idx_P, b) := im))
          = Inr (Re', Im')"
    and in_bs: "\<And>i c. i = idx_P \<Longrightarrow> c \<in> set bs \<Longrightarrow> f i c = Inr (Re' (i, c), Im' (i, c))"
    and out_bs: "\<And>i c. \<not> (i = idx_P \<and> c \<in> set bs) \<Longrightarrow>
        Re' (i, c) = (ReVlrk((idx_P, b) := re)) (i, c) \<and> Im' (i, c) = (ImVlrk((idx_P, b) := im)) (i, c)"
    using Cons.IH [OF p1 p2, of "ReVlrk((idx_P, b) := re)" "ImVlrk((idx_P, b) := im)"] by blast
  have "fill_points f My_Max_NumGridB idx_P (b # bs) (ReVlrk, ImVlrk) = Inr (Re', Im')"
    by (simp add: fb r bb)
  moreover have "f i c = Inr (Re' (i, c), Im' (i, c))" if "i = idx_P" "c \<in> set (b # bs)" for i c
  proof (cases "c \<in> set bs")
    case True
    then show ?thesis using in_bs that by simp
  next
    case False
    then have "c = b" using that by simp
    then show ?thesis using out_bs [of i c] False that fb by simp
  qed
  moreover have "Re' (i, c) = ReVlrk (i, c) \<and> Im' (i, c) = ImVlrk (i, c)"
    if "\<not> (i = idx_P \<and> c \<in> set (b # bs))" for i c
    using out_bs [of i c] that by auto
  ultimately show ?case by blast
qed

lemma fill_sources_Inr:
  assumes "\<And>i b. b < n \<Longrightarrow> \<exists>re im. f i b = Inr (re, im)"
    and "n \<le> My_Max_NumGridB"
  shows "\<exists>Re' Im'. fill_sources f My_Max_NumGridB is n (ReVlrk, ImVlrk) = Inr (Re', Im') \<and>
     (\<forall>i b. (i \<in> set is \<and> b < n \<longrightarrow> f i b = Inr (Re' (i, b), Im' (i, b))) \<and>
            (\<not> (i \<in> set is \<and> b < n) \<longrightarrow> Re' (i, b) = ReVlrk (i, b) \<and> Im' (i, b) = ImVlrk (i, b)))"
proof (induction "is" arbitrary: ReVlrk ImVlrk)
  case Nil
  show ?case by simp
next
  case (Cons j js)
  have a1: "\<And>b. b \<in> set [0..<n] \<Longrightarrow> \<exists>re im. f j b = Inr (re, im)"
    using assms(1) by simp
  have a2: "\<And>b. b \<in> set [0..<n] \<Longrightarrow> b < My_Max_NumGridB"
    using assms(2) by simp
  obtain Re1 Im1 where
    p: "fill_points f My_Max_NumGridB j [0..<n] (ReVlrk, ImVlrk) = Inr (Re1, Im1)"
    and in1: "\<And>i c. i = j \<Longrightarrow> c < n \<Longrightarrow> f i c = Inr (Re1 (i, c), Im1 (i, c))"
    and out1: "\<And>i c. \<not> (i = j \<and> c < n) \<Longrightarrow> Re1 (i, c) = ReVlrk (i, c) \<and> Im1 (i, c) = ImVlrk (i, c)"
    using fill_points_Inr [of "[0..<n]" f j My_Max_NumGridB ReVlrk ImVlrk, OF a1 a2] by auto
  obtain Re' Im' where
    r: "fill_sources f My_Max_NumGridB js n (Re1, Im1) = Inr (Re', Im')"
    and in2: "\<And>i c. i \<in> set js \<Longrightarrow> c < n \<Longrightarrow> f i c = Inr (Re' (i, c), Im' (i, c))"
    and out2: "\<And>i c. \<not> (i \<in> set js \<and> c < n) \<Longrightarrow> Re' (i, c) = Re1 (i, c) \<and> Im' (i, c) = Im1 (i, c)"
    using Cons.IH [of Re1 Im1] by blast
  have "fill_sources f My_Max_NumGridB (j # js) n (ReVlrk, ImVlrk) = Inr (Re', Im')"
    by (simp add: p r)
  moreover have "f i c = Inr (Re' (i, c), Im' (i, c))" if "i \<in> set (j # js)" "c < n" for i c
  proof (cases "i \<in> set js")
    case True
    then show ?thesis using in2 that by simp
  next
    case False
    then have "i = j" using that by simp
    then show ?thesis using out2 [of i c] in1 [of i c] False that by simp
  qed
  moreover have "Re' (i, c) = ReVlrk (i, c) \<and> Im' (i, c) = ImVlrk (i, c)"
    if "\<not> (i \<in> set (j # js) \<and> c < n)" for i c
    using out2 [of i c] out1 [of i c] that by auto
  ultimately show ?case by blast
qed

lemma Vlrk_fill_run:
  assumes "0 < Ngrid1 g" and "0 < Ngrid2 g" and "0 < Ngrid3 g"
    and "Ngrid3 g * Ngrid2 g * Ngrid1 g < 2147483648"
    and G: "GNs_of g numprocs myid' = Inr GNs"
    and "0 \<le> GNs" and "GNs + int My_NumGridB_CB \<le> Ngrid3 g * Ngrid2 g * Ngrid1 g"
    and cv: "Cell_Volume g \<noteq> 0" and mx: "My_NumGridB_CB \<le> My_Max_NumGridB"
  shows "\<exists>ReVlrk ImVlrk.
     Vlrk_fill g numprocs myid' num_sources My_Max_NumGridB My_NumGridB_CB RI0 = Inr (ReVlrk, ImVlrk) \<and>
     (\<forall>idx_P BN_CB. 1 \<le> idx_P \<and> idx_P \<le> num_sources \<and> BN_CB < My_NumGridB_CB \<longrightarrow>
        Vlrk_point g 1 (4 * pi / Cell_Volume g) GNs idx_P BN_CB
          = Inr (ReVlrk (idx_P, BN_CB), ImVlrk (idx_P, BN_CB)))"
proof -
  obtain Re0 Im0 where RI0: "RI0 = (Re0, Im0)" by (cases RI0)
  define f where "f = Vlrk_point g 1 (4 * pi / Cell_Volume g) GNs"
  have tot: "\<And>i b. b < My_NumGridB_CB \<Longrightarrow> \<exists>re im. f i b = Inr (re, im)"
    unfolding f_def using assms(1-4,6,7) by (rule Vlrk_point_total)
  obtain ReVlrk ImVlrk where
    r: "fill_sources f My_Max_NumGridB [1..<num_sources + 1] My_NumGridB_CB (Re0, Im0)
          = Inr (ReVlrk, ImVlrk)"
    and pt: "\<And>i b. i \<in> set [1..<num_sources + 1] \<Longrightarrow> b < My_NumGridB_CB \<Longrightarrow>
        f i b = Inr (ReVlrk (i, b), ImVlrk (i, b))"
    using fill_sources_Inr [of My_NumGridB_CB f My_Max_NumGridB "[1..<num_sources + 1]" Re0 Im0,
        OF tot mx]
    by blast
  have run: "Vlrk_fill g numprocs myid' num_sources My_Max_NumGridB My_NumGridB_CB RI0
      = Inr (ReVlrk, ImVlrk)"
    unfolding Vlrk_fill_def Let_def G using cv r
    by (simp add: checked_div_def RI0 f_def)
  have "f idx_P BN_CB = Inr (ReVlrk (idx_P, BN_CB), ImVlrk (idx_P, BN_CB))"
    if "1 \<le> idx_P" "idx_P \<le> num_sources" "BN_CB < My_NumGridB_CB" for idx_P BN_CB
  proof -
    have "idx_P \<in> set [1..<num_sources + 1]" using that(1,2) by auto
    then show ?thesis using that(3) by (rule pt)
  qed
  with run show ?thesis unfolding f_def by blast
qed

text \<open>
  Claim C2. Where the grid points of the calling process are points of the grid (positive
  grid dimensions, flat indices in the range of \<open>int\<close>, the block of the process inside the
  grid), the cell volume is not zero and the rows of the arrays hold the points of the
  process, the coefficient loop ends normally, and for every source index and every grid
  point \<open>BN_CB\<close> of the process the indices \<open>(k1, k2, k3)\<close> recovered from \<open>GN = BN_CB + GNs\<close>
  satisfy \<open>GN = k3*N2*N1 + k2*N1 + k1\<close> with \<open>0 \<le> k1 < N1\<close>, \<open>0 \<le> k2 < N2\<close> and
  \<open>0 \<le> k3 < N3\<close>; the reciprocal vector the loop computes is that of the indices folded
  as \<open>k\<close> if \<open>k < N/2\<close> and \<open>k - N\<close> otherwise; and when its squared length \<open>K2\<close> is
  positive, the stored \<open>ReVlrk[idx_P][BN_CB]\<close> and \<open>ImVlrk[idx_P][BN_CB]\<close> are the real and
  the imaginary part of \<open>(4\<pi>/Cell_Volume)/K2 * exp(-K2/2)\<close> times \<open>exp(i G\<cdot>r)\<close>, that is the
  magnitude times \<open>cos (G\<cdot>r)\<close> and \<open>sin (G\<cdot>r)\<close>.
\<close>

theorem recip_coefficient:
  assumes "0 < Ngrid1 g" and "0 < Ngrid2 g" and "0 < Ngrid3 g"
    and "Ngrid3 g * Ngrid2 g * Ngrid1 g < 2147483648"
    and "GNs_of g numprocs myid' = Inr GNs"
    and "0 \<le> GNs" and "GNs + int My_NumGridB_CB \<le> Ngrid3 g * Ngrid2 g * Ngrid1 g"
    and "Cell_Volume g \<noteq> 0" and "My_NumGridB_CB \<le> My_Max_NumGridB"
  shows "\<exists>ReVlrk ImVlrk.
     Vlrk_fill g numprocs myid' num_sources My_Max_NumGridB My_NumGridB_CB RI0 = Inr (ReVlrk, ImVlrk) \<and>
     (\<forall>idx_P BN_CB. 1 \<le> idx_P \<and> idx_P \<le> num_sources \<and> BN_CB < My_NumGridB_CB \<longrightarrow>
        (\<exists>k1 k2 k3.
           grid_index g (int32 (int BN_CB + GNs)) = Inr (k1, k2, k3) \<and>
           int BN_CB + GNs = k3 * Ngrid2 g * Ngrid1 g + k2 * Ngrid1 g + k1 \<and>
           0 \<le> k1 \<and> k1 < Ngrid1 g \<and> 0 \<le> k2 \<and> k2 < Ngrid2 g \<and> 0 \<le> k3 \<and> k3 < Ngrid3 g \<and>
           recip_vector g (int32 (int BN_CB + GNs))
             = Inr (spec_G g (k1, k2, k3) 1, spec_G g (k1, k2, k3) 2, spec_G g (k1, k2, k3) 3) \<and>
           (0 < spec_K2 g (k1, k2, k3) \<longrightarrow>
              ReVlrk (idx_P, BN_CB)
                = spec_magnitude g (k1, k2, k3) * cos (spec_phase g (k1, k2, k3) idx_P) \<and>
              ImVlrk (idx_P, BN_CB)
                = spec_magnitude g (k1, k2, k3) * sin (spec_phase g (k1, k2, k3) idx_P) \<and>
              Complex (ReVlrk (idx_P, BN_CB)) (ImVlrk (idx_P, BN_CB))
                = spec_coefficient g (k1, k2, k3) idx_P)))"
proof -
  obtain ReVlrk ImVlrk where
    run: "Vlrk_fill g numprocs myid' num_sources My_Max_NumGridB My_NumGridB_CB RI0
            = Inr (ReVlrk, ImVlrk)"
    and pt: "\<And>idx_P BN_CB. 1 \<le> idx_P \<Longrightarrow> idx_P \<le> num_sources \<Longrightarrow> BN_CB < My_NumGridB_CB \<Longrightarrow>
        Vlrk_point g 1 (4 * pi / Cell_Volume g) GNs idx_P BN_CB
          = Inr (ReVlrk (idx_P, BN_CB), ImVlrk (idx_P, BN_CB))"
    using Vlrk_fill_run [OF assms, of num_sources RI0] by blast
  have "\<exists>k1 k2 k3.
           grid_index g (int32 (int BN_CB + GNs)) = Inr (k1, k2, k3) \<and>
           int BN_CB + GNs = k3 * Ngrid2 g * Ngrid1 g + k2 * Ngrid1 g + k1 \<and>
           0 \<le> k1 \<and> k1 < Ngrid1 g \<and> 0 \<le> k2 \<and> k2 < Ngrid2 g \<and> 0 \<le> k3 \<and> k3 < Ngrid3 g \<and>
           recip_vector g (int32 (int BN_CB + GNs))
             = Inr (spec_G g (k1, k2, k3) 1, spec_G g (k1, k2, k3) 2, spec_G g (k1, k2, k3) 3) \<and>
           (0 < spec_K2 g (k1, k2, k3) \<longrightarrow>
              ReVlrk (idx_P, BN_CB)
                = spec_magnitude g (k1, k2, k3) * cos (spec_phase g (k1, k2, k3) idx_P) \<and>
              ImVlrk (idx_P, BN_CB)
                = spec_magnitude g (k1, k2, k3) * sin (spec_phase g (k1, k2, k3) idx_P) \<and>
              Complex (ReVlrk (idx_P, BN_CB)) (ImVlrk (idx_P, BN_CB))
                = spec_coefficient g (k1, k2, k3) idx_P)"
    if i1: "1 \<le> idx_P" and i2: "idx_P \<le> num_sources" and b: "BN_CB < My_NumGridB_CB"
    for idx_P BN_CB
  proof -
    have w: "int32 (int BN_CB + GNs) = int BN_CB + GNs"
      using assms(1-4,6,7) b by (rule block_point(1))
    obtain k1 k2 k3 where k: "grid_index g (int BN_CB + GNs) = Inr (k1, k2, k3)"
      and idx: "int BN_CB + GNs = k3 * Ngrid2 g * Ngrid1 g + k2 * Ngrid1 g + k1"
      and bd: "0 \<le> k1" "k1 < Ngrid1 g" "0 \<le> k2" "k2 < Ngrid2 g" "0 \<le> k3" "k3 < Ngrid3 g"
      using block_point(2) [OF assms(1-4,6,7) b] by blast
    have st: "ReVlrk (idx_P, BN_CB)
                = spec_magnitude g (k1, k2, k3) * cos (spec_phase g (k1, k2, k3) idx_P) \<and>
              ImVlrk (idx_P, BN_CB)
                = spec_magnitude g (k1, k2, k3) * sin (spec_phase g (k1, k2, k3) idx_P) \<and>
              Complex (ReVlrk (idx_P, BN_CB)) (ImVlrk (idx_P, BN_CB))
                = spec_coefficient g (k1, k2, k3) idx_P"
      if pos: "0 < spec_K2 g (k1, k2, k3)"
    proof -
      have "Vlrk_point g 1 (4 * pi / Cell_Volume g) GNs idx_P BN_CB =
          Inr (spec_magnitude g (k1, k2, k3) * cos (spec_phase g (k1, k2, k3) idx_P),
               spec_magnitude g (k1, k2, k3) * sin (spec_phase g (k1, k2, k3) idx_P))"
        using w k bd assms(4) pos by (rule Vlrk_point_spec)
      with pt [OF i1 i2 b]
      have re: "ReVlrk (idx_P, BN_CB)
                  = spec_magnitude g (k1, k2, k3) * cos (spec_phase g (k1, k2, k3) idx_P)"
        and im: "ImVlrk (idx_P, BN_CB)
                  = spec_magnitude g (k1, k2, k3) * sin (spec_phase g (k1, k2, k3) idx_P)"
        by simp_all
      show ?thesis
        unfolding re im by (simp only: spec_coefficient_parts simp_thms)
    qed
    have rv: "recip_vector g (int BN_CB + GNs)
        = Inr (spec_G g (k1, k2, k3) 1, spec_G g (k1, k2, k3) 2, spec_G g (k1, k2, k3) 3)"
      using k bd assms(4) by (rule recip_vector_spec)
    show ?thesis
      unfolding w using k idx bd rv st by blast
  qed
  with run show ?thesis by blast
qed

text \<open>
  The second of two processes on the grid of 4 points a side: its block starts at
  \<open>GNs = 32\<close>, its grid point 1 has the indices \<open>(1, 0, 2)\<close>, the folded indices
  \<open>(1, 0, -2)\<close> and \<open>K2 = 5\<close>.
\<close>

theorem recip_coefficient_witness:
  "\<exists>ReVlrk ImVlrk.
     Vlrk_fill recip_ex 2 1 1 32 32 (\<lambda>k. 7, \<lambda>k. 7) = Inr (ReVlrk, ImVlrk) \<and>
     grid_index recip_ex (int32 (int 1 + 32)) = Inr (1, 0, 2) \<and>
     ReVlrk (1, 1) = 0 \<and> ImVlrk (1, 1) = exp (- 5 / 2) / 5 \<and>
     Complex (ReVlrk (1, 1)) (ImVlrk (1, 1)) = spec_coefficient recip_ex (1, 0, 2) 1"
proof -
  have G: "GNs_of recip_ex 2 1 = Inr 32"
    by (simp add: GNs_of_def recip_ex_def int32_id int_div_pos)
  have gi: "grid_index recip_ex (int32 (int 1 + 32)) = Inr (1, 0, 2)"
    by (simp add: grid_index_def recip_ex_def int32_id int_div_pos)
  have K2: "spec_K2 recip_ex (1, 0, 2) = 5"
    by (simp add: spec_K2_def spec_G_def spec_fold_def recip_ex_def)
  have ph: "spec_phase recip_ex (1, 0, 2) 1 = pi / 2"
    by (simp add: spec_phase_def spec_G_def spec_fold_def recip_ex_def)
  have mg: "spec_magnitude recip_ex (1, 0, 2) = exp (- 5 / 2) / 5"
    by (simp add: spec_magnitude_def K2) (simp add: recip_ex_def)
  have dims: "0 < Ngrid1 recip_ex" "0 < Ngrid2 recip_ex" "0 < Ngrid3 recip_ex"
    "Ngrid3 recip_ex * Ngrid2 recip_ex * Ngrid1 recip_ex < 2147483648"
    by (simp_all add: recip_ex_def)
  have blk: "(0::int) \<le> 32" "32 + int 32 \<le> Ngrid3 recip_ex * Ngrid2 recip_ex * Ngrid1 recip_ex"
    "Cell_Volume recip_ex \<noteq> 0" "(32::nat) \<le> 32"
    by (simp_all add: recip_ex_def)
  obtain ReVlrk ImVlrk where
    run: "Vlrk_fill recip_ex 2 1 1 32 32 (\<lambda>k. 7, \<lambda>k. 7) = Inr (ReVlrk, ImVlrk)"
    and pt: "\<forall>idx_P BN_CB. 1 \<le> idx_P \<and> idx_P \<le> 1 \<and> BN_CB < 32 \<longrightarrow>
      (\<exists>k1 k2 k3.
           grid_index recip_ex (int32 (int BN_CB + 32)) = Inr (k1, k2, k3) \<and>
           int BN_CB + 32 = k3 * Ngrid2 recip_ex * Ngrid1 recip_ex + k2 * Ngrid1 recip_ex + k1 \<and>
           0 \<le> k1 \<and> k1 < Ngrid1 recip_ex \<and> 0 \<le> k2 \<and> k2 < Ngrid2 recip_ex \<and>
           0 \<le> k3 \<and> k3 < Ngrid3 recip_ex \<and>
           recip_vector recip_ex (int32 (int BN_CB + 32))
             = Inr (spec_G recip_ex (k1, k2, k3) 1, spec_G recip_ex (k1, k2, k3) 2,
                    spec_G recip_ex (k1, k2, k3) 3) \<and>
           (0 < spec_K2 recip_ex (k1, k2, k3) \<longrightarrow>
              ReVlrk (idx_P, BN_CB)
                = spec_magnitude recip_ex (k1, k2, k3) * cos (spec_phase recip_ex (k1, k2, k3) idx_P) \<and>
              ImVlrk (idx_P, BN_CB)
                = spec_magnitude recip_ex (k1, k2, k3) * sin (spec_phase recip_ex (k1, k2, k3) idx_P) \<and>
              Complex (ReVlrk (idx_P, BN_CB)) (ImVlrk (idx_P, BN_CB))
                = spec_coefficient recip_ex (k1, k2, k3) idx_P))"
    using recip_coefficient [OF dims G blk, of 1 "(\<lambda>k. 7, \<lambda>k. 7)"] by blast
  from pt [rule_format, of 1 1]
  have "ReVlrk (1, 1) = 0 \<and> ImVlrk (1, 1) = exp (- 5 / 2) / 5 \<and>
     Complex (ReVlrk (1, 1)) (ImVlrk (1, 1)) = spec_coefficient recip_ex (1, 0, 2) 1"
    using gi by (auto simp: K2 ph mg simp del: One_nat_def)
  with run gi show ?thesis by blast
qed

text \<open>
  Claim C3. Under the same conditions the coefficient loop ends without a fault, so
  without a division by zero, for every number of sources, and wherever \<open>KK = 0\<close> both
  stored coefficients are \<open>0\<close>.
\<close>

theorem zero_mode_coefficient:
  assumes "0 < Ngrid1 g" and "0 < Ngrid2 g" and "0 < Ngrid3 g"
    and "Ngrid3 g * Ngrid2 g * Ngrid1 g < 2147483648"
    and "GNs_of g numprocs myid' = Inr GNs"
    and "0 \<le> GNs" and "GNs + int My_NumGridB_CB \<le> Ngrid3 g * Ngrid2 g * Ngrid1 g"
    and "Cell_Volume g \<noteq> 0" and "My_NumGridB_CB \<le> My_Max_NumGridB"
  shows "\<exists>ReVlrk ImVlrk.
     Vlrk_fill g numprocs myid' num_sources My_Max_NumGridB My_NumGridB_CB RI0 = Inr (ReVlrk, ImVlrk) \<and>
     (\<forall>idx_P BN_CB.
        1 \<le> idx_P \<and> idx_P \<le> num_sources \<and> BN_CB < My_NumGridB_CB \<and>
        KK_of g (int32 (int BN_CB + GNs)) = Inr 0 \<longrightarrow>
        ReVlrk (idx_P, BN_CB) = 0 \<and> ImVlrk (idx_P, BN_CB) = 0)"
proof -
  obtain ReVlrk ImVlrk where
    run: "Vlrk_fill g numprocs myid' num_sources My_Max_NumGridB My_NumGridB_CB RI0
            = Inr (ReVlrk, ImVlrk)"
    and pt: "\<And>idx_P BN_CB. 1 \<le> idx_P \<Longrightarrow> idx_P \<le> num_sources \<Longrightarrow> BN_CB < My_NumGridB_CB \<Longrightarrow>
        Vlrk_point g 1 (4 * pi / Cell_Volume g) GNs idx_P BN_CB
          = Inr (ReVlrk (idx_P, BN_CB), ImVlrk (idx_P, BN_CB))"
    using Vlrk_fill_run [OF assms, of num_sources RI0] by blast
  have "ReVlrk (idx_P, BN_CB) = 0 \<and> ImVlrk (idx_P, BN_CB) = 0"
    if "1 \<le> idx_P" "idx_P \<le> num_sources" "BN_CB < My_NumGridB_CB"
      "KK_of g (int32 (int BN_CB + GNs)) = Inr 0" for idx_P BN_CB
    using pt [OF that(1,2,3)] Vlrk_point_zero [OF that(4), of 1 "4 * pi / Cell_Volume g" idx_P]
    by simp
  with run show ?thesis by blast
qed

text \<open>One process on the grid of 4 points a side: its grid point 0 has \<open>KK = 0\<close>.\<close>

theorem zero_mode_coefficient_witness:
  "\<exists>ReVlrk ImVlrk.
     Vlrk_fill recip_ex 1 0 1 64 64 (\<lambda>k. 7, \<lambda>k. 7) = Inr (ReVlrk, ImVlrk) \<and>
     KK_of recip_ex (int32 (int 0 + 0)) = Inr 0 \<and>
     ReVlrk (1, 0) = 0 \<and> ImVlrk (1, 0) = 0"
proof -
  have G: "GNs_of recip_ex 1 0 = Inr 0"
    by (simp add: GNs_of_def recip_ex_def int32_id int_div_pos)
  have KK: "KK_of recip_ex (int32 (int 0 + 0)) = Inr 0"
    by (simp add: KK_of_def recip_vector_def grid_index_def fold_axis_def recip_ex_def
        int32_id int_div_pos sdiv_nonneg)
  have dims: "0 < Ngrid1 recip_ex" "0 < Ngrid2 recip_ex" "0 < Ngrid3 recip_ex"
    "Ngrid3 recip_ex * Ngrid2 recip_ex * Ngrid1 recip_ex < 2147483648"
    by (simp_all add: recip_ex_def)
  have blk: "(0::int) \<le> 0" "0 + int 64 \<le> Ngrid3 recip_ex * Ngrid2 recip_ex * Ngrid1 recip_ex"
    "Cell_Volume recip_ex \<noteq> 0" "(64::nat) \<le> 64"
    by (simp_all add: recip_ex_def)
  from zero_mode_coefficient [OF dims G blk, of 1 "(\<lambda>k. 7, \<lambda>k. 7)"] KK
  show ?thesis by fastforce
qed

section \<open>Properties of the redistribution\<close>

lemma length_scatter [simp]: "length (scatter ws W) = length W"
  unfolding scatter_def by (induction ws arbitrary: W) (auto simp: case_prod_beta)

lemma scatter_Nil [simp]: "scatter [] W = W"
  by (simp add: scatter_def)

lemma scatter_Cons: "scatter ((k, v) # ws) W = scatter ws (W[k := v])"
  by (simp add: scatter_def)

lemma scatter_append: "scatter (xs @ ys) W = scatter ys (scatter xs W)"
  by (simp add: scatter_def)

lemma scatter_nth_out: "k \<notin> fst ` set ws \<Longrightarrow> scatter ws W ! k = W ! k"
proof (induction ws arbitrary: W)
  case Nil
  show ?case by simp
next
  case (Cons w ws)
  obtain k' v' where w: "w = (k', v')" by (cases w)
  from Cons.prems have "k \<noteq> k'" and "k \<notin> fst ` set ws" by (auto simp: w)
  then show ?case using Cons.IH [of "W[k' := v']"] by (simp add: w scatter_Cons)
qed

lemma scatter_nth_in:
  "distinct (map fst ws) \<Longrightarrow> (k, v) \<in> set ws \<Longrightarrow> k < length W \<Longrightarrow> scatter ws W ! k = v"
proof (induction ws arbitrary: W)
  case Nil
  then show ?case by simp
next
  case (Cons w ws)
  obtain k' v' where w: "w = (k', v')" by (cases w)
  show ?case
  proof (cases "(k, v) = w")
    case True
    then have "k \<notin> fst ` set ws" using Cons.prems(1) by (auto simp: w)
    then have "scatter ws (W[k' := v']) ! k = W[k' := v'] ! k" by (rule scatter_nth_out)
    then show ?thesis using True Cons.prems(3) by (simp add: w scatter_Cons)
  next
    case False
    then have "(k, v) \<in> set ws" using Cons.prems(2) by simp
    then show ?thesis using Cons.IH [of "W[k' := v']"] Cons.prems by (simp add: w scatter_Cons)
  qed
qed

lemma fold_update_scatter:
  "fold (\<lambda>x W. W[k x := v x]) xs W = scatter (map (\<lambda>x. (k x, v x)) xs) W"
  by (induction xs arbitrary: W) (simp_all add: scatter_Cons)

lemma fold_fold_update_scatter:
  "fold (\<lambda>i. fold (\<lambda>x W. W[k i x := v i x]) (xs i)) is W =
     scatter (concat (map (\<lambda>i. map (\<lambda>x. (k i x, v i x)) (xs i)) is)) W"
  by (induction "is" arbitrary: W) (simp_all add: fold_update_scatter scatter_append)

lemma fold_collect:
  "fold (\<lambda>x acc. if P x then acc @ [f x] else acc) xs acc = acc @ map f (filter P xs)"
  by (induction xs arbitrary: acc) simp_all

lemma distinct_concat_filter:
  "distinct (concat (map f xs)) \<Longrightarrow> distinct (concat (map f (filter P xs)))"
  by (induction xs) auto

lemma mset_concat_map_cong:
  "mset xs = mset ys \<Longrightarrow> mset (concat (map f xs)) = mset (concat (map f ys))"
proof -
  assume a: "mset xs = mset ys"
  have "mset (concat (map f zs)) = (\<Sum>z\<in>#mset zs. mset (f z))" for zs
    by (induction zs) simp_all
  then show ?thesis using a by simp
qed

lemma filter_eq_single:
  "distinct (map f xs) \<Longrightarrow> x \<in> set xs \<Longrightarrow> filter (\<lambda>y. f y = f x) xs = [x]"
proof (induction xs)
  case Nil
  then show ?case by simp
next
  case (Cons a xs)
  show ?case
  proof (cases "a = x")
    case True
    have "filter (\<lambda>y. f y = f x) xs = []"
      using Cons.prems(1) True by (auto simp: filter_empty_conv image_iff)
    then show ?thesis using True by simp
  next
    case False
    then have "x \<in> set xs" using Cons.prems(2) by simp
    then have "f a \<noteq> f x" using Cons.prems(1) by auto
    then show ?thesis using Cons.IH Cons.prems(1) \<open>x \<in> set xs\<close> by simp
  qed
qed

lemma filter_take_distinct:
  "distinct (map f xs) \<Longrightarrow> i < length xs \<Longrightarrow> filter (\<lambda>y. f y = f (xs ! i)) (take i xs) = []"
proof -
  assume d: "distinct (map f xs)" and i: "i < length xs"
  have "f y \<noteq> f (xs ! i)" if "y \<in> set (take i xs)" for y
  proof -
    from that obtain j where j: "j < i" "y = xs ! j"
      using i by (auto simp: in_set_conv_nth)
    have "map f xs ! j \<noteq> map f xs ! i"
      using d j i nth_eq_iff_index_eq [of "map f xs" j i] by simp
    then show ?thesis using j i by simp
  qed
  then show ?thesis by (auto simp: filter_empty_conv)
qed

text \<open>Running sums of counts cut an interval into consecutive segments.\<close>

lemma segments_upt:
  assumes "GP 0 = 0" and "\<And>ID. ID < NN \<Longrightarrow> GP (ID + 1) = GP ID + c ID" and "n \<le> NN"
  shows "concat (map (\<lambda>ID. map (\<lambda>LN. GP ID + LN) [0..<c ID]) [0..<n]) = [0..<GP n]"
  using assms(3)
proof (induction n)
  case 0
  show ?case by (simp add: assms(1))
next
  case (Suc n)
  have "map (\<lambda>LN. GP n + LN) [0..<c n] = [GP n..<GP n + c n]"
    using map_add_upt [of "GP n" "c n"] by (simp add: add.commute)
  moreover have "GP (Suc n) = GP n + c n" using assms(2) [of n] Suc.prems by simp
  moreover have "[0..<GP n + c n] = [0..<GP n] @ [GP n..<GP n + c n]"
    by (rule upt_add_eq_append) simp
  ultimately show ?case using Suc by simp
qed

lemma segments_mono:
  fixes GP :: "nat \<Rightarrow> nat" and n :: nat
  assumes "\<And>ID. ID < NN \<Longrightarrow> GP (ID + 1) = GP ID + c ID"
  shows "m \<le> n \<Longrightarrow> n \<le> NN \<Longrightarrow> GP m \<le> GP n"
proof (induction n)
  case 0
  then show ?case by simp
next
  case (Suc n)
  show ?case
  proof (cases "m = Suc n")
    case True
    then show ?thesis by simp
  next
    case False
    then have "GP m \<le> GP n" using Suc by simp
    moreover have "GP (Suc n) = GP n + c n" using assms [of n] Suc.prems by simp
    ultimately show ?thesis by simp
  qed
qed

lemma segment_inside:
  fixes GP :: "nat \<Rightarrow> nat" and ID :: nat
  assumes "\<And>ID. ID < NN \<Longrightarrow> GP (ID + 1) = GP ID + c ID" and "ID < NN"
  shows "GP ID + c ID \<le> GP NN"
proof -
  have "ID + 1 \<le> NN" using assms(2) by simp
  then have "GP (ID + 1) \<le> GP NN"
    using segments_mono [of NN GP c "ID + 1" NN] assms(1) by blast
  then show ?thesis using assms(1) [OF assms(2)] by simp
qed

lemma map_upt_shift: "map f [g..<g + c] = map (\<lambda>LN. f (g + LN)) [0..<c]"
  by (induction c) simp_all

lemma pack_partner_scatter:
  "pack_partner P data_B ID W = scatter (snd_writes P data_B ID) W"
  unfolding pack_partner_def Let_def snd_writes_def by (rule fold_update_scatter)

lemma fst_snd_writes:
  "map fst (concat (map (snd_writes P data_B) xs)) =
     concat (map (\<lambda>ID. map (\<lambda>LN. GP_B2C_S P ID + LN) [0..<Num_Snd_Grid_B2C P (ID_NN_B2C_S P ID)]) xs)"
  by (induction xs) (simp_all add: snd_writes_def comp_def)

lemma partners_ok_step:
  "partners_ok numprocs NN ID_NN GP Num \<Longrightarrow> ID < NN \<Longrightarrow> GP (ID + 1) = GP ID + Num (ID_NN ID)"
  by (simp add: partners_ok_def)

lemma partners_ok_zero: "partners_ok numprocs NN ID_NN GP Num \<Longrightarrow> GP 0 = 0"
  by (simp add: partners_ok_def)

lemma partners_ok_distinct: "partners_ok numprocs NN ID_NN GP Num \<Longrightarrow> distinct (map ID_NN [0..<NN])"
  by (simp add: partners_ok_def)

lemma partners_ok_set:
  "partners_ok numprocs NN ID_NN GP Num \<Longrightarrow>
   set (map ID_NN [0..<NN]) = {q. q < numprocs \<and> Num q \<noteq> 0}"
  by (auto simp: partners_ok_def)

lemma snd_writes_distinct:
  assumes "partners_ok numprocs (NN_B2C_S P) (ID_NN_B2C_S P) (GP_B2C_S P) (Num_Snd_Grid_B2C P)"
    and "n \<le> NN_B2C_S P"
  shows "map fst (concat (map (snd_writes P data_B) [0..<n])) = [0..<GP_B2C_S P n]"
  unfolding fst_snd_writes
  by (rule segments_upt [where NN = "NN_B2C_S P"])
     (use assms partners_ok_zero partners_ok_step in blast)+

lemma snd_buffer_nth:
  assumes ok: "partners_ok numprocs (NN_B2C_S P) (ID_NN_B2C_S P) (GP_B2C_S P) (Num_Snd_Grid_B2C P)"
    and n: "n \<le> NN_B2C_S P" and ID: "ID < n" and LN: "LN < Num_Snd_Grid_B2C P (ID_NN_B2C_S P ID)"
    and len: "length W0 = GP_B2C_S P (NN_B2C_S P)"
  shows "rd (scatter (concat (map (snd_writes P data_B) [0..<n])) W0) (GP_B2C_S P ID + LN) =
         rd data_B (Index_Snd_Grid_B2C P (ID_NN_B2C_S P ID) LN)"
proof -
  have step: "\<And>ID. ID < NN_B2C_S P \<Longrightarrow>
      GP_B2C_S P (ID + 1) = GP_B2C_S P ID + Num_Snd_Grid_B2C P (ID_NN_B2C_S P ID)"
    using ok by (rule partners_ok_step)
  have "ID < NN_B2C_S P" using ID n by linarith
  with step have "GP_B2C_S P ID + Num_Snd_Grid_B2C P (ID_NN_B2C_S P ID) \<le> GP_B2C_S P (NN_B2C_S P)"
    by (rule segment_inside)
  then have inb: "GP_B2C_S P ID + LN < length W0" using LN len by simp
  have mem: "(GP_B2C_S P ID + LN, rd data_B (Index_Snd_Grid_B2C P (ID_NN_B2C_S P ID) LN))
      \<in> set (concat (map (snd_writes P data_B) [0..<n]))"
  proof -
    have "(GP_B2C_S P ID + LN, rd data_B (Index_Snd_Grid_B2C P (ID_NN_B2C_S P ID) LN))
        \<in> set (snd_writes P data_B ID)"
      using LN by (simp add: snd_writes_def)
    moreover have "ID \<in> set [0..<n]" using ID by simp
    ultimately show ?thesis by (simp only: set_concat set_map) blast
  qed
  have "distinct (map fst (concat (map (snd_writes P data_B) [0..<n])))"
    unfolding snd_writes_distinct [OF ok n] by simp
  from scatter_nth_in [OF this mem inb] inb show ?thesis
    by (simp add: rd_def)
qed

lemma isend_loop_prefix:
  assumes ok: "partners_ok numprocs (NN_B2C_S P) (ID_NN_B2C_S P) (GP_B2C_S P) (Num_Snd_Grid_B2C P)"
    and len: "length W0 = GP_B2C_S P (NN_B2C_S P)"
  shows "n \<le> NN_B2C_S P \<Longrightarrow>
     fold (\<lambda>ID (Work_Snd, sent).
             (let IDS = ID_NN_B2C_S P ID;
                  gp = GP_B2C_S P ID;
                  Work_Snd' = pack_partner P data_B ID Work_Snd
              in (Work_Snd',
                  if IDS \<noteq> myid'
                  then sent @ [(IDS, map (rd Work_Snd') [gp..<gp + Num_Snd_Grid_B2C P IDS])]
                  else sent)))
          [0..<n] (W0, []) =
     (scatter (concat (map (snd_writes P data_B) [0..<n])) W0,
      map (snd_message P data_B) (filter (\<lambda>ID. ID_NN_B2C_S P ID \<noteq> myid') [0..<n]))"
proof (induction n)
  case 0
  show ?case by simp
next
  case (Suc n)
  define W' where "W' = scatter (concat (map (snd_writes P data_B) [0..<Suc n])) W0"
  have W': "pack_partner P data_B n (scatter (concat (map (snd_writes P data_B) [0..<n])) W0) = W'"
    by (simp add: W'_def pack_partner_scatter scatter_append)
  have "map (rd W') [GP_B2C_S P n..<GP_B2C_S P n + Num_Snd_Grid_B2C P (ID_NN_B2C_S P n)]
      = map (\<lambda>LN. rd W' (GP_B2C_S P n + LN)) [0..<Num_Snd_Grid_B2C P (ID_NN_B2C_S P n)]"
    by (rule map_upt_shift)
  also have "\<dots> = map (\<lambda>LN. rd data_B (Index_Snd_Grid_B2C P (ID_NN_B2C_S P n) LN))
      [0..<Num_Snd_Grid_B2C P (ID_NN_B2C_S P n)]"
    unfolding W'_def using snd_buffer_nth [OF ok Suc.prems _ _ len, of n _ data_B]
    by (intro map_cong) simp_all
  finally have payload: "(ID_NN_B2C_S P n,
       map (rd W') [GP_B2C_S P n..<GP_B2C_S P n + Num_Snd_Grid_B2C P (ID_NN_B2C_S P n)])
      = snd_message P data_B n"
    by (simp add: snd_message_def)
  show ?case
    using Suc by (simp add: Let_def W' payload) (simp add: W'_def)
qed

lemma send_side_eq:
  assumes "partners_ok numprocs (NN_B2C_S P) (ID_NN_B2C_S P) (GP_B2C_S P) (Num_Snd_Grid_B2C P)"
  shows "send_side P myid' data_B =
     (scatter (concat (map (snd_writes P data_B) [0..<NN_B2C_S P]))
        (replicate (GP_B2C_S P (NN_B2C_S P)) None),
      map (snd_message P data_B) (filter (\<lambda>ID. ID_NN_B2C_S P ID \<noteq> myid') [0..<NN_B2C_S P]))"
  unfolding send_side_def isend_loop_def
  by (rule isend_loop_prefix [OF assms]) simp_all

lemma irecv_loop_eq:
  "irecv_loop P myid' = map (rcv_post P) (filter (\<lambda>ID. ID_NN_B2C_R P ID \<noteq> myid') [0..<NN_B2C_R P])"
  unfolding irecv_loop_def Let_def rcv_post_def
  using fold_collect [of "\<lambda>ID. ID_NN_B2C_R P ID \<noteq> myid'"
      "\<lambda>ID. (ID_NN_B2C_R P ID, GP_B2C_R P ID, Num_Rcv_Grid_B2C P (ID_NN_B2C_R P ID))" "[0..<NN_B2C_R P]" "[]"]
  by simp

lemma valid_plans_snd:
  "valid_plans numprocs plans len_B len_C \<Longrightarrow> p < numprocs \<Longrightarrow>
   partners_ok numprocs (NN_B2C_S (plans p)) (ID_NN_B2C_S (plans p)) (GP_B2C_S (plans p))
     (Num_Snd_Grid_B2C (plans p))"
  by (simp add: valid_plans_def)

lemma valid_plans_rcv:
  "valid_plans numprocs plans len_B len_C \<Longrightarrow> p < numprocs \<Longrightarrow>
   partners_ok numprocs (NN_B2C_R (plans p)) (ID_NN_B2C_R (plans p)) (GP_B2C_R (plans p))
     (Num_Rcv_Grid_B2C (plans p))"
  by (simp add: valid_plans_def)

lemma valid_plans_counts:
  "valid_plans numprocs plans len_B len_C \<Longrightarrow> p < numprocs \<Longrightarrow> q < numprocs \<Longrightarrow>
   Num_Snd_Grid_B2C (plans p) q = Num_Rcv_Grid_B2C (plans q) p"
  by (simp add: valid_plans_def)

lemma valid_plans_B:
  "valid_plans numprocs plans len_B len_C \<Longrightarrow> p < numprocs \<Longrightarrow>
   mset (concat (map (snd_list (plans p)) [0..<numprocs])) = mset [0..<len_B p]"
  by (simp add: valid_plans_def)

lemma valid_plans_C:
  "valid_plans numprocs plans len_B len_C \<Longrightarrow> p < numprocs \<Longrightarrow>
   mset (concat (map (rcv_list (plans p)) [0..<numprocs])) = mset [0..<len_C p]"
  by (simp add: valid_plans_def)

lemma partner_member:
  assumes "partners_ok numprocs NN ID_NN GP Num" and "ID < NN"
  shows "ID_NN ID < numprocs \<and> Num (ID_NN ID) \<noteq> 0"
proof -
  have "ID_NN ID \<in> set (map ID_NN [0..<NN])" using assms(2) by simp
  then show ?thesis unfolding partners_ok_set [OF assms(1)] by simp
qed

lemma partner_position:
  assumes "partners_ok numprocs NN ID_NN GP Num" and "q < numprocs" and "Num q \<noteq> 0"
  shows "\<exists>ID < NN. ID_NN ID = q"
proof -
  have "q \<in> set (map ID_NN [0..<NN])"
    unfolding partners_ok_set [OF assms(1)] using assms(2,3) by simp
  then show ?thesis by auto
qed

lemma message_for:
  assumes v: "valid_plans numprocs plans len_B len_C"
    and p: "p < numprocs" and q: "q < numprocs" and pq: "p \<noteq> q"
    and n: "Num_Snd_Grid_B2C (plans p) q \<noteq> 0"
  shows "filter (\<lambda>(dest, payload). dest = q) (snd (send_side (plans p) p (data_B p)))
       = [(q, payload_of plans data_B p q)]"
proof -
  define P where "P = plans p"
  have ok: "partners_ok numprocs (NN_B2C_S P) (ID_NN_B2C_S P) (GP_B2C_S P) (Num_Snd_Grid_B2C P)"
    unfolding P_def using v p by (rule valid_plans_snd)
  obtain ID' where ID': "ID' < NN_B2C_S P" "ID_NN_B2C_S P ID' = q"
    using partner_position [OF ok q] n by (auto simp: P_def)
  have "filter (\<lambda>ID. ID_NN_B2C_S P ID = ID_NN_B2C_S P ID') [0..<NN_B2C_S P] = [ID']"
    by (rule filter_eq_single) (use ID' partners_ok_distinct [OF ok] in simp_all)
  then have one: "filter (\<lambda>ID. ID_NN_B2C_S P ID \<noteq> p \<and> ID_NN_B2C_S P ID = q) [0..<NN_B2C_S P] = [ID']"
    using pq ID'(2) by (simp add: conj_commute cong: conj_cong)
  have "((\<lambda>(dest, payload). dest = q) \<circ> snd_message P (data_B p)) = (\<lambda>ID. ID_NN_B2C_S P ID = q)"
    by (simp add: fun_eq_iff snd_message_def)
  then have "filter (\<lambda>(dest, payload). dest = q) (snd (send_side P p (data_B p)))
      = map (snd_message P (data_B p)) [ID']"
    by (simp add: send_side_eq [OF ok] filter_map one)
  also have "\<dots> = [(q, payload_of plans data_B p q)]"
    using ID'(2) by (simp add: snd_message_def payload_of_def P_def)
  finally show ?thesis by (simp add: P_def)
qed

lemma posts_fst_distinct:
  assumes "partners_ok numprocs (NN_B2C_R P) (ID_NN_B2C_R P) (GP_B2C_R P) (Num_Rcv_Grid_B2C P)"
  shows "distinct (map fst (irecv_loop P myid'))"
proof -
  have "map fst (irecv_loop P myid') = map (ID_NN_B2C_R P) (rcv_partners P myid')"
    by (simp add: irecv_loop_eq rcv_partners_def rcv_post_def comp_def)
  moreover have "distinct (map (ID_NN_B2C_R P) (rcv_partners P myid'))"
    unfolding rcv_partners_def by (rule distinct_map_filter) (rule partners_ok_distinct [OF assms])
  ultimately show ?thesis by simp
qed

lemma rcv_partners_nth:
  assumes "i < length (rcv_partners P myid')"
  shows "rcv_partners P myid' ! i < NN_B2C_R P \<and> ID_NN_B2C_R P (rcv_partners P myid' ! i) \<noteq> myid'"
proof -
  have "rcv_partners P myid' ! i \<in> set (rcv_partners P myid')" using assms by simp
  then show ?thesis by (simp add: rcv_partners_def)
qed

lemma complete_recv_eq:
  assumes v: "valid_plans numprocs plans len_B len_C" and q: "q < numprocs"
    and i: "i < length (rcv_partners (plans q) q)"
  shows "complete_recv (\<lambda>p. snd (send_side (plans p) p (data_B p))) q (irecv_loop (plans q) q) i Rcv
       = Some (scatter (rcv_writes plans data_B q (rcv_partners (plans q) q ! i)) Rcv)"
proof -
  define P where "P = plans q"
  define posts where "posts = irecv_loop P q"
  define ID where "ID = rcv_partners P q ! i"
  define p where "p = ID_NN_B2C_R P ID"
  have okR: "partners_ok numprocs (NN_B2C_R P) (ID_NN_B2C_R P) (GP_B2C_R P) (Num_Rcv_Grid_B2C P)"
    unfolding P_def using v q by (rule valid_plans_rcv)
  have i': "i < length (rcv_partners P q)" using i by (simp add: P_def)
  have ID: "ID < NN_B2C_R P" "p \<noteq> q"
    using rcv_partners_nth [OF i'] by (simp_all add: ID_def p_def)
  have pm: "p < numprocs" "Num_Rcv_Grid_B2C P p \<noteq> 0"
    using partner_member [OF okR ID(1)] by (simp_all add: p_def)
  have cnt: "Num_Snd_Grid_B2C (plans p) q = Num_Rcv_Grid_B2C P p"
    unfolding P_def using v pm(1) q by (rule valid_plans_counts)
  have len: "length posts = length (rcv_partners P q)"
    by (simp add: posts_def irecv_loop_eq rcv_partners_def)
  have post: "posts ! i = (p, GP_B2C_R P ID, Num_Rcv_Grid_B2C P p)"
    using i' by (simp add: posts_def irecv_loop_eq rcv_partners_def [symmetric] rcv_post_def
        ID_def p_def)
  have "filter (\<lambda>y. fst y = fst (posts ! i)) (take i posts) = []"
    by (rule filter_take_distinct)
       (use posts_fst_distinct [OF okR] i' len in \<open>simp_all add: posts_def\<close>)
  moreover have "filter (\<lambda>(s, gp', cnt'). s = p) (take i posts)
      = filter (\<lambda>y. fst y = fst (posts ! i)) (take i posts)"
    by (rule filter_cong) (auto simp: post)
  ultimately have first: "filter (\<lambda>(s, gp', cnt'). s = p) (take i posts) = []"
    by simp
  have msgs: "filter (\<lambda>(dest, payload). dest = q) (snd (send_side (plans p) p (data_B p)))
       = [(q, payload_of plans data_B p q)]"
    using v pm(1) q ID(2) by (rule message_for) (use cnt pm(2) in simp)
  have mm: "matching_message (\<lambda>p. snd (send_side (plans p) p (data_B p))) q posts i
      = Some (payload_of plans data_B p q)"
    by (simp add: matching_message_def post first msgs)
  have plen: "length (payload_of plans data_B p q) = Num_Rcv_Grid_B2C P p"
    by (simp add: payload_of_def cnt)
  have "fold (\<lambda>j Work_Rcv. Work_Rcv[GP_B2C_R P ID + j := payload_of plans data_B p q ! j])
          [0..<Num_Rcv_Grid_B2C P p] Rcv
      = scatter (rcv_writes plans data_B q ID) Rcv"
    unfolding rcv_writes_def P_def [symmetric] p_def [symmetric] by (rule fold_update_scatter)
  then have "complete_recv (\<lambda>p. snd (send_side (plans p) p (data_B p))) q posts i Rcv
       = Some (scatter (rcv_writes plans data_B q ID) Rcv)"
    using i' len by (simp add: complete_recv_def mm post plen)
  then show ?thesis by (simp add: posts_def ID_def P_def)
qed

lemma waitall_eq:
  assumes v: "valid_plans numprocs plans len_B len_C" and q: "q < numprocs"
  shows "set ord \<subseteq> {..<length (rcv_partners (plans q) q)} \<Longrightarrow>
     waitall (\<lambda>p. snd (send_side (plans p) p (data_B p))) q (irecv_loop (plans q) q) ord Rcv
       = Some (scatter (concat (map (\<lambda>i. rcv_writes plans data_B q (rcv_partners (plans q) q ! i)) ord)) Rcv)"
proof (induction ord arbitrary: Rcv)
  case Nil
  show ?case by simp
next
  case (Cons i ord)
  have i: "i < length (rcv_partners (plans q) q)" using Cons.prems by simp
  show ?case
    using Cons.prems by (simp add: complete_recv_eq [OF v q i] Cons.IH scatter_append)
qed

lemma concat_map_filter_nonempty:
  "(\<And>x. \<not> Q x \<Longrightarrow> f x = []) \<Longrightarrow> concat (map f (filter Q xs)) = concat (map f xs)"
  by (induction xs) simp_all

lemma fst_rcv_writes:
  "map fst (concat (map (rcv_writes plans data_B q) xs)) =
     concat (map (\<lambda>ID. map (\<lambda>LN. GP_B2C_R (plans q) ID + LN)
                   [0..<Num_Rcv_Grid_B2C (plans q) (ID_NN_B2C_R (plans q) ID)]) xs)"
  by (induction xs) (simp_all add: rcv_writes_def comp_def)

lemma rcv_buffer:
  assumes v: "valid_plans numprocs plans len_B len_C" and q: "q < numprocs"
    and ord: "complete_once plans q ord"
    and len: "length Rcv0 = GP_B2C_R (plans q) (NN_B2C_R (plans q))"
  shows "\<exists>Rcv. waitall (\<lambda>p. snd (send_side (plans p) p (data_B p))) q (irecv_loop (plans q) q) ord Rcv0
            = Some Rcv \<and>
          (\<forall>ID LN. ID < NN_B2C_R (plans q) \<and> ID_NN_B2C_R (plans q) ID \<noteq> q \<and>
                   LN < Num_Rcv_Grid_B2C (plans q) (ID_NN_B2C_R (plans q) ID) \<longrightarrow>
             rd Rcv (GP_B2C_R (plans q) ID + LN)
               = payload_of plans data_B (ID_NN_B2C_R (plans q) ID) q ! LN)"
proof -
  define P where "P = plans q"
  define rp where "rp = rcv_partners P q"
  define ws where "ws = concat (map (\<lambda>i. rcv_writes plans data_B q (rp ! i)) ord)"
  define ws0 where "ws0 = concat (map (rcv_writes plans data_B q) rp)"
  have okR: "partners_ok numprocs (NN_B2C_R P) (ID_NN_B2C_R P) (GP_B2C_R P) (Num_Rcv_Grid_B2C P)"
    unfolding P_def using v q by (rule valid_plans_rcv)
  have step: "\<And>ID. ID < NN_B2C_R P \<Longrightarrow>
      GP_B2C_R P (ID + 1) = GP_B2C_R P ID + Num_Rcv_Grid_B2C P (ID_NN_B2C_R P ID)"
    using okR by (rule partners_ok_step)
  have lp: "length (irecv_loop P q) = length rp"
    by (simp add: irecv_loop_eq rp_def rcv_partners_def)
  have mo: "mset ord = mset [0..<length rp]"
    using ord by (simp only: complete_once_def P_def [symmetric] lp)
  then have "set ord = set [0..<length rp]" by (rule mset_eq_setD)
  then have sub: "set ord \<subseteq> {..<length (rcv_partners (plans q) q)}"
    by (auto simp: rp_def P_def)
  have w: "waitall (\<lambda>p. snd (send_side (plans p) p (data_B p))) q (irecv_loop (plans q) q) ord Rcv0
      = Some (scatter ws Rcv0)"
    unfolding ws_def rp_def P_def by (rule waitall_eq [OF v q sub])
  have "map (\<lambda>i. rcv_writes plans data_B q (rp ! i)) [0..<length rp]
      = map (rcv_writes plans data_B q) (map (\<lambda>i. rp ! i) [0..<length rp])"
    by simp
  then have "concat (map (\<lambda>i. rcv_writes plans data_B q (rp ! i)) [0..<length rp]) = ws0"
    unfolding ws0_def map_nth by simp
  then have mw: "mset ws = mset ws0"
    unfolding ws_def using mset_concat_map_cong [OF mo, of "\<lambda>i. rcv_writes plans data_B q (rp ! i)"]
    by simp
  have "concat (map (\<lambda>ID. map (\<lambda>LN. GP_B2C_R P ID + LN)
          [0..<Num_Rcv_Grid_B2C P (ID_NN_B2C_R P ID)]) [0..<NN_B2C_R P]) = [0..<GP_B2C_R P (NN_B2C_R P)]"
    by (rule segments_upt [where NN = "NN_B2C_R P"])
       (use step partners_ok_zero [OF okR] in simp_all)
  then have "distinct (concat (map (\<lambda>ID. map (\<lambda>LN. GP_B2C_R P ID + LN)
          [0..<Num_Rcv_Grid_B2C P (ID_NN_B2C_R P ID)]) [0..<NN_B2C_R P]))"
    by simp
  then have d0: "distinct (map fst ws0)"
    unfolding ws0_def fst_rcv_writes rp_def rcv_partners_def P_def [symmetric]
    by (rule distinct_concat_filter)
  have "mset (map fst ws) = mset (map fst ws0)" using mw by simp
  then have dw: "distinct (map fst ws)"
    using d0 mset_eq_imp_distinct_iff by blast
  have sw: "set ws = set ws0" using mw by (rule mset_eq_setD)
  have "rd (scatter ws Rcv0) (GP_B2C_R P ID + LN) = payload_of plans data_B (ID_NN_B2C_R P ID) q ! LN"
    if ID: "ID < NN_B2C_R P" and nq: "ID_NN_B2C_R P ID \<noteq> q"
      and LN: "LN < Num_Rcv_Grid_B2C P (ID_NN_B2C_R P ID)" for ID LN
  proof -
    have "GP_B2C_R P ID + Num_Rcv_Grid_B2C P (ID_NN_B2C_R P ID) \<le> GP_B2C_R P (NN_B2C_R P)"
      using step ID by (rule segment_inside)
    then have inb: "GP_B2C_R P ID + LN < length Rcv0" using LN len by (simp add: P_def)
    have "ID \<in> set rp" using ID nq by (simp add: rp_def rcv_partners_def)
    moreover have "(GP_B2C_R P ID + LN, payload_of plans data_B (ID_NN_B2C_R P ID) q ! LN)
        \<in> set (rcv_writes plans data_B q ID)"
      using LN by (simp add: rcv_writes_def P_def)
    ultimately have "(GP_B2C_R P ID + LN, payload_of plans data_B (ID_NN_B2C_R P ID) q ! LN) \<in> set ws"
      unfolding sw ws0_def by (simp only: set_concat set_map) blast
    from scatter_nth_in [OF dw this inb] inb show ?thesis by (simp add: rd_def)
  qed
  with w show ?thesis by (simp add: P_def)
qed

lemma unpack_scatter:
  "unpack P myid' Work_Snd Work_Rcv data_C =
     scatter (concat (map (unp_writes P myid' Work_Snd Work_Rcv) [0..<NN_B2C_R P])) data_C"
proof -
  have "(\<lambda>ID data_C.
             (let IDR = ID_NN_B2C_R P ID
              in if IDR = myid' then
                   (let gp = GP_B2C_S P ID
                    in fold (\<lambda>LN data_C. data_C[Index_Rcv_Grid_B2C P IDR LN := rd Work_Snd (gp + LN)])
                            [0..<Num_Rcv_Grid_B2C P IDR] data_C)
                 else
                   (let gp = GP_B2C_R P ID
                    in fold (\<lambda>LN data_C. data_C[Index_Rcv_Grid_B2C P IDR LN := rd Work_Rcv (gp + LN)])
                            [0..<Num_Rcv_Grid_B2C P IDR] data_C)))
      = (\<lambda>ID. fold (\<lambda>LN data_C. data_C[Index_Rcv_Grid_B2C P (ID_NN_B2C_R P ID) LN :=
                 (if ID_NN_B2C_R P ID = myid' then rd Work_Snd (GP_B2C_S P ID + LN)
                  else rd Work_Rcv (GP_B2C_R P ID + LN))])
            [0..<Num_Rcv_Grid_B2C P (ID_NN_B2C_R P ID)])"
    by (simp add: fun_eq_iff Let_def)
  then show ?thesis
    unfolding unpack_def unp_writes_def by (simp only: fold_fold_update_scatter)
qed

lemma fst_unp_writes:
  "map fst (concat (map (unp_writes P myid' Work_Snd Work_Rcv) xs)) =
     concat (map (rcv_list P) (map (ID_NN_B2C_R P) xs))"
  by (induction xs) (simp_all add: unp_writes_def rcv_list_def comp_def)

lemma partner_lists_cover:
  assumes ok: "partners_ok numprocs NN ID_NN GP Num" and e: "\<And>p. Num p = 0 \<Longrightarrow> f p = []"
  shows "mset (concat (map f (map ID_NN [0..<NN]))) = mset (concat (map f [0..<numprocs]))"
proof -
  have "set (map ID_NN [0..<NN]) = set (filter (\<lambda>q. Num q \<noteq> 0) [0..<numprocs])"
    using ok by (simp add: partners_ok_def)
  moreover have "distinct (map ID_NN [0..<NN])" using ok by (rule partners_ok_distinct)
  moreover have "distinct (filter (\<lambda>q. Num q \<noteq> 0) [0..<numprocs])" by simp
  ultimately have "mset (map ID_NN [0..<NN]) = mset (filter (\<lambda>q. Num q \<noteq> 0) [0..<numprocs])"
    using set_eq_iff_mset_eq_distinct by blast
  then have "mset (concat (map f (map ID_NN [0..<NN])))
      = mset (concat (map f (filter (\<lambda>q. Num q \<noteq> 0) [0..<numprocs])))"
    by (rule mset_concat_map_cong)
  also have "concat (map f (filter (\<lambda>q. Num q \<noteq> 0) [0..<numprocs])) = concat (map f [0..<numprocs])"
    by (rule concat_map_filter_nonempty) (simp add: e)
  finally show ?thesis .
qed

lemma unpack_positions:
  assumes v: "valid_plans numprocs plans len_B len_C" and q: "q < numprocs"
  shows "mset (map fst (concat (map (unp_writes (plans q) q Work_Snd Work_Rcv) [0..<NN_B2C_R (plans q)])))
       = mset [0..<len_C q]"
proof -
  have okR: "partners_ok numprocs (NN_B2C_R (plans q)) (ID_NN_B2C_R (plans q)) (GP_B2C_R (plans q))
      (Num_Rcv_Grid_B2C (plans q))"
    using v q by (rule valid_plans_rcv)
  have "mset (concat (map (rcv_list (plans q)) (map (ID_NN_B2C_R (plans q)) [0..<NN_B2C_R (plans q)])))
      = mset (concat (map (rcv_list (plans q)) [0..<numprocs]))"
    using okR by (rule partner_lists_cover) (simp add: rcv_list_def)
  then show ?thesis
    unfolding fst_unp_writes using valid_plans_C [OF v q] by (simp only:)
qed

lemma self_alignedD:
  "self_aligned numprocs plans \<Longrightarrow> p < numprocs \<Longrightarrow> ID < NN_B2C_R (plans p) \<Longrightarrow>
   ID_NN_B2C_R (plans p) ID = p \<Longrightarrow> ID < NN_B2C_S (plans p) \<and> ID_NN_B2C_S (plans p) ID = p"
  by (simp add: self_aligned_def)

lemma payload_of_nth:
  "LN < Num_Snd_Grid_B2C (plans p) q \<Longrightarrow>
   payload_of plans data_B p q ! LN = rd (data_B p) (Index_Snd_Grid_B2C (plans p) q LN)"
  by (simp add: payload_of_def)

lemma routing:
  assumes v: "valid_plans numprocs plans len_B len_C" and a: "self_aligned numprocs plans"
    and q: "q < numprocs" and ord: "complete_once plans q ord" and lc: "length data_C = len_C q"
  shows "\<exists>C'. Data_Grid_Copy_B2C_XiwenLi plans data_B q ord data_C = Some C' \<and>
           length C' = len_C q \<and>
           (\<forall>p LN. p < numprocs \<and> LN < Num_Rcv_Grid_B2C (plans q) p \<longrightarrow>
              C' ! (Index_Rcv_Grid_B2C (plans q) p LN)
                = rd (data_B p) (Index_Snd_Grid_B2C (plans p) q LN))"
proof -
  define P where "P = plans q"
  define Snd where "Snd = fst (send_side P q (data_B q))"
  have okS: "partners_ok numprocs (NN_B2C_S P) (ID_NN_B2C_S P) (GP_B2C_S P) (Num_Snd_Grid_B2C P)"
    unfolding P_def using v q by (rule valid_plans_snd)
  have okR: "partners_ok numprocs (NN_B2C_R P) (ID_NN_B2C_R P) (GP_B2C_R P) (Num_Rcv_Grid_B2C P)"
    unfolding P_def using v q by (rule valid_plans_rcv)
  obtain Rcv where
    w: "waitall (\<lambda>p. snd (send_side (plans p) p (data_B p))) q (irecv_loop (plans q) q) ord
          (replicate (GP_B2C_R (plans q) (NN_B2C_R (plans q))) None) = Some Rcv"
    and r: "\<And>ID LN. ID < NN_B2C_R P \<Longrightarrow> ID_NN_B2C_R P ID \<noteq> q \<Longrightarrow>
          LN < Num_Rcv_Grid_B2C P (ID_NN_B2C_R P ID) \<Longrightarrow>
          rd Rcv (GP_B2C_R P ID + LN) = payload_of plans data_B (ID_NN_B2C_R P ID) q ! LN"
    using rcv_buffer [OF v q ord, of "replicate (GP_B2C_R (plans q) (NN_B2C_R (plans q))) None" data_B]
    unfolding P_def by auto
  define uws where "uws = concat (map (unp_writes P q Snd Rcv) [0..<NN_B2C_R P])"
  define C' where "C' = scatter uws data_C"
  have run: "Data_Grid_Copy_B2C_XiwenLi plans data_B q ord data_C = Some C'"
    unfolding Data_Grid_Copy_B2C_XiwenLi_def Let_def w
    by (simp add: C'_def uws_def unpack_scatter Snd_def P_def)
  have pos: "mset (map fst uws) = mset [0..<len_C q]"
    unfolding uws_def P_def by (rule unpack_positions [OF v q])
  have du: "distinct (map fst uws)"
    using pos mset_eq_imp_distinct_iff [of "map fst uws" "[0..<len_C q]"] by simp
  have su: "set (map fst uws) = {..<len_C q}"
    using mset_eq_setD [OF pos] by auto
  have "C' ! (Index_Rcv_Grid_B2C P p LN) = rd (data_B p) (Index_Snd_Grid_B2C (plans p) q LN)"
    if p: "p < numprocs" and LN: "LN < Num_Rcv_Grid_B2C P p" for p LN
  proof -
    have cnt: "Num_Snd_Grid_B2C (plans p) q = Num_Rcv_Grid_B2C P p"
      unfolding P_def using v p q by (rule valid_plans_counts)
    obtain ID where ID: "ID < NN_B2C_R P" "ID_NN_B2C_R P ID = p"
      using partner_position [OF okR p] LN by auto
    define val where "val = (if p = q then rd Snd (GP_B2C_S P ID + LN) else rd Rcv (GP_B2C_R P ID + LN))"
    have "(Index_Rcv_Grid_B2C P p LN, val) \<in> set (unp_writes P q Snd Rcv ID)"
      using LN ID(2) by (auto simp: unp_writes_def val_def)
    moreover have "ID \<in> set [0..<NN_B2C_R P]" using ID(1) by simp
    ultimately have mem: "(Index_Rcv_Grid_B2C P p LN, val) \<in> set uws"
      unfolding uws_def by (simp only: set_concat set_map) blast
    then have "Index_Rcv_Grid_B2C P p LN \<in> set (map fst uws)" by force
    then have inb: "Index_Rcv_Grid_B2C P p LN < length data_C" using su lc by simp
    have C: "C' ! (Index_Rcv_Grid_B2C P p LN) = val"
      unfolding C'_def using du mem inb by (rule scatter_nth_in)
    have "val = rd (data_B p) (Index_Snd_Grid_B2C (plans p) q LN)"
    proof (cases "p = q")
      case True
      have al: "ID < NN_B2C_S P" "ID_NN_B2C_S P ID = q"
        using self_alignedD [OF a q, of ID] ID True by (simp_all add: P_def)
      have "rd (scatter (concat (map (snd_writes P (data_B q)) [0..<NN_B2C_S P]))
               (replicate (GP_B2C_S P (NN_B2C_S P)) None)) (GP_B2C_S P ID + LN)
          = rd (data_B q) (Index_Snd_Grid_B2C P (ID_NN_B2C_S P ID) LN)"
        by (rule snd_buffer_nth [OF okS]) (use al LN cnt True in \<open>simp_all add: P_def\<close>)
      moreover have "Snd = scatter (concat (map (snd_writes P (data_B q)) [0..<NN_B2C_S P]))
               (replicate (GP_B2C_S P (NN_B2C_S P)) None)"
        by (simp add: Snd_def send_side_eq [OF okS])
      ultimately show ?thesis
        using True al(2) by (simp add: val_def P_def)
    next
      case False
      have "rd Rcv (GP_B2C_R P ID + LN) = payload_of plans data_B (ID_NN_B2C_R P ID) q ! LN"
        by (rule r) (use ID LN False in simp_all)
      then show ?thesis
        using False ID(2) LN cnt by (simp add: val_def payload_of_nth)
    qed
    with C show ?thesis by simp
  qed
  moreover have "length C' = len_C q" by (simp add: C'_def lc)
  ultimately show ?thesis using run by (auto simp: P_def)
qed

text \<open>
  The same for a partition-C field that has more cells than the plan names: the cells
  beyond the plan's are not touched.
\<close>

lemma routing_slack:
  assumes v: "valid_plans numprocs plans len_B len_C" and a: "self_aligned numprocs plans"
    and q: "q < numprocs" and ord: "complete_once plans q ord" and lc: "len_C q \<le> length data_C"
  shows "\<exists>C'. Data_Grid_Copy_B2C_XiwenLi plans data_B q ord data_C = Some C' \<and>
           length C' = length data_C \<and>
           (\<forall>p LN. p < numprocs \<and> LN < Num_Rcv_Grid_B2C (plans q) p \<longrightarrow>
              C' ! (Index_Rcv_Grid_B2C (plans q) p LN)
                = rd (data_B p) (Index_Snd_Grid_B2C (plans p) q LN)) \<and>
           (\<forall>i. len_C q \<le> i \<longrightarrow> C' ! i = data_C ! i)"
proof -
  define P where "P = plans q"
  define Snd where "Snd = fst (send_side P q (data_B q))"
  have okS: "partners_ok numprocs (NN_B2C_S P) (ID_NN_B2C_S P) (GP_B2C_S P) (Num_Snd_Grid_B2C P)"
    unfolding P_def using v q by (rule valid_plans_snd)
  have okR: "partners_ok numprocs (NN_B2C_R P) (ID_NN_B2C_R P) (GP_B2C_R P) (Num_Rcv_Grid_B2C P)"
    unfolding P_def using v q by (rule valid_plans_rcv)
  obtain Rcv where
    w: "waitall (\<lambda>p. snd (send_side (plans p) p (data_B p))) q (irecv_loop (plans q) q) ord
          (replicate (GP_B2C_R (plans q) (NN_B2C_R (plans q))) None) = Some Rcv"
    and r: "\<And>ID LN. ID < NN_B2C_R P \<Longrightarrow> ID_NN_B2C_R P ID \<noteq> q \<Longrightarrow>
          LN < Num_Rcv_Grid_B2C P (ID_NN_B2C_R P ID) \<Longrightarrow>
          rd Rcv (GP_B2C_R P ID + LN) = payload_of plans data_B (ID_NN_B2C_R P ID) q ! LN"
    using rcv_buffer [OF v q ord, of "replicate (GP_B2C_R (plans q) (NN_B2C_R (plans q))) None" data_B]
    unfolding P_def by auto
  define uws where "uws = concat (map (unp_writes P q Snd Rcv) [0..<NN_B2C_R P])"
  define C' where "C' = scatter uws data_C"
  have run: "Data_Grid_Copy_B2C_XiwenLi plans data_B q ord data_C = Some C'"
    unfolding Data_Grid_Copy_B2C_XiwenLi_def Let_def w
    by (simp add: C'_def uws_def unpack_scatter Snd_def P_def)
  have pos: "mset (map fst uws) = mset [0..<len_C q]"
    unfolding uws_def P_def by (rule unpack_positions [OF v q])
  have du: "distinct (map fst uws)"
    using pos mset_eq_imp_distinct_iff [of "map fst uws" "[0..<len_C q]"] by simp
  have su: "set (map fst uws) = {..<len_C q}"
    using mset_eq_setD [OF pos] by auto
  have "C' ! (Index_Rcv_Grid_B2C P p LN) = rd (data_B p) (Index_Snd_Grid_B2C (plans p) q LN)"
    if p: "p < numprocs" and LN: "LN < Num_Rcv_Grid_B2C P p" for p LN
  proof -
    have cnt: "Num_Snd_Grid_B2C (plans p) q = Num_Rcv_Grid_B2C P p"
      unfolding P_def using v p q by (rule valid_plans_counts)
    obtain ID where ID: "ID < NN_B2C_R P" "ID_NN_B2C_R P ID = p"
      using partner_position [OF okR p] LN by auto
    define val where "val = (if p = q then rd Snd (GP_B2C_S P ID + LN) else rd Rcv (GP_B2C_R P ID + LN))"
    have "(Index_Rcv_Grid_B2C P p LN, val) \<in> set (unp_writes P q Snd Rcv ID)"
      using LN ID(2) by (auto simp: unp_writes_def val_def)
    moreover have "ID \<in> set [0..<NN_B2C_R P]" using ID(1) by simp
    ultimately have mem: "(Index_Rcv_Grid_B2C P p LN, val) \<in> set uws"
      unfolding uws_def by (simp only: set_concat set_map) blast
    then have "Index_Rcv_Grid_B2C P p LN \<in> set (map fst uws)" by force
    then have inb: "Index_Rcv_Grid_B2C P p LN < length data_C" using su lc by simp
    have C: "C' ! (Index_Rcv_Grid_B2C P p LN) = val"
      unfolding C'_def using du mem inb by (rule scatter_nth_in)
    have "val = rd (data_B p) (Index_Snd_Grid_B2C (plans p) q LN)"
    proof (cases "p = q")
      case True
      have al: "ID < NN_B2C_S P" "ID_NN_B2C_S P ID = q"
        using self_alignedD [OF a q, of ID] ID True by (simp_all add: P_def)
      have "rd (scatter (concat (map (snd_writes P (data_B q)) [0..<NN_B2C_S P]))
               (replicate (GP_B2C_S P (NN_B2C_S P)) None)) (GP_B2C_S P ID + LN)
          = rd (data_B q) (Index_Snd_Grid_B2C P (ID_NN_B2C_S P ID) LN)"
        by (rule snd_buffer_nth [OF okS]) (use al LN cnt True in \<open>simp_all add: P_def\<close>)
      moreover have "Snd = scatter (concat (map (snd_writes P (data_B q)) [0..<NN_B2C_S P]))
               (replicate (GP_B2C_S P (NN_B2C_S P)) None)"
        by (simp add: Snd_def send_side_eq [OF okS])
      ultimately show ?thesis
        using True al(2) by (simp add: val_def P_def)
    next
      case False
      have "rd Rcv (GP_B2C_R P ID + LN) = payload_of plans data_B (ID_NN_B2C_R P ID) q ! LN"
        by (rule r) (use ID LN False in simp_all)
      then show ?thesis
        using False ID(2) LN cnt by (simp add: val_def payload_of_nth)
    qed
    with C show ?thesis by simp
  qed
  moreover have "length C' = length data_C" by (simp add: C'_def)
  moreover have "C' ! i = data_C ! i" if "len_C q \<le> i" for i
  proof -
    have "i \<notin> set (map fst uws)" using su that by simp
    then have "i \<notin> fst ` set uws" by simp
    then show ?thesis unfolding C'_def by (rule scatter_nth_out)
  qed
  ultimately show ?thesis using run by (auto simp: P_def)
qed


lemma mset_concat_map: "mset (concat (map f zs)) = (\<Sum>z\<leftarrow>zs. mset (f z))"
  by (induction zs) simp_all

lemma mset_concat_swap:
  "mset (concat (map (\<lambda>x. concat (map (\<lambda>y. g x y) ys)) xs)) =
   mset (concat (map (\<lambda>y. concat (map (\<lambda>x. g x y) xs)) ys))"
proof (induction xs)
  case Nil
  show ?case by (induction ys) simp_all
next
  case (Cons x xs)
  have "mset (concat (map (\<lambda>y. concat (map (\<lambda>x. g x y) (x # xs))) ys))
      = (\<Sum>y\<leftarrow>ys. mset (g x y) + mset (concat (map (\<lambda>x. g x y) xs)))"
    by (simp add: mset_concat_map)
  also have "\<dots> = (\<Sum>y\<leftarrow>ys. mset (g x y)) + (\<Sum>y\<leftarrow>ys. mset (concat (map (\<lambda>x. g x y) xs)))"
    by (rule sum_list_addf)
  also have "\<dots> = mset (concat (map (\<lambda>y. g x y) ys))
      + mset (concat (map (\<lambda>y. concat (map (\<lambda>x. g x y) xs)) ys))"
    by (simp add: mset_concat_map)
  finally show ?case using Cons by simp
qed

lemma collect_map:
  "(\<And>x. x \<in> set xs \<Longrightarrow> f x = Some (g x)) \<Longrightarrow> collect (map f xs) = Some (map g xs)"
  by (induction xs) simp_all

lemma mset_by_index:
  assumes "mset (concat (map f ps)) = mset [0..<length xs]"
  shows "mset xs = mset (concat (map (\<lambda>p. map (\<lambda>k. xs ! k) (f p)) ps))"
proof -
  have "mset xs = mset (map (\<lambda>k. xs ! k) [0..<length xs])"
    by (simp only: map_nth)
  also have "\<dots> = image_mset (\<lambda>k. xs ! k) (mset (concat (map f ps)))"
    by (simp only: mset_map assms)
  also have "\<dots> = mset (map (\<lambda>k. xs ! k) (concat (map f ps)))"
    by (simp only: mset_map)
  also have "map (\<lambda>k. xs ! k) (concat (map f ps)) = concat (map (\<lambda>p. map (\<lambda>k. xs ! k) (f p)) ps)"
    by (simp add: map_concat comp_def)
  finally show ?thesis .
qed

lemma snd_list_payload:
  assumes v: "valid_plans numprocs plans (\<lambda>p. length (data_B p)) len_C"
    and p: "p < numprocs" and q: "q < numprocs"
  shows "map (\<lambda>k. data_B p ! k) (snd_list (plans p) q) = payload_of plans data_B p q"
proof -
  have "set (concat (map (snd_list (plans p)) [0..<numprocs])) = set [0..<length (data_B p)]"
    using valid_plans_B [OF v p] by (rule mset_eq_setD)
  then have "set (snd_list (plans p) q) \<subseteq> {..<length (data_B p)}"
    using q by auto
  then have "\<And>LN. LN < Num_Snd_Grid_B2C (plans p) q \<Longrightarrow>
      Index_Snd_Grid_B2C (plans p) q LN < length (data_B p)"
    by (auto simp: snd_list_def image_subset_iff)
  then show ?thesis
    by (simp add: snd_list_def payload_of_def rd_def)
qed

lemma rcv_list_payload:
  assumes v: "valid_plans numprocs plans len_B len_C"
    and p: "p < numprocs" and q: "q < numprocs"
    and r: "\<And>p LN. p < numprocs \<Longrightarrow> LN < Num_Rcv_Grid_B2C (plans q) p \<Longrightarrow>
              C' ! (Index_Rcv_Grid_B2C (plans q) p LN)
                = rd (data_B p) (Index_Snd_Grid_B2C (plans p) q LN)"
  shows "map (\<lambda>k. C' ! k) (rcv_list (plans q) p) = payload_of plans data_B p q"
  using r [OF p] valid_plans_counts [OF v p q]
  by (simp add: rcv_list_def payload_of_def)

lemma conservation:
  assumes v: "valid_plans numprocs plans (\<lambda>p. length (data_B p)) (\<lambda>p. length (data_C p))"
    and a: "self_aligned numprocs plans"
    and ord: "\<And>q. q < numprocs \<Longrightarrow> complete_once plans q (ords q)"
  shows "\<exists>Cs. redistribute numprocs plans data_B ords data_C = Some Cs \<and>
           length Cs = numprocs \<and>
           mset (concat Cs) = mset (concat (map data_B [0..<numprocs]))"
proof -
  define C where "C q = the (Data_Grid_Copy_B2C_XiwenLi plans data_B q (ords q) (data_C q))" for q
  have run: "Data_Grid_Copy_B2C_XiwenLi plans data_B q (ords q) (data_C q) = Some (C q)"
    and len: "length (C q) = length (data_C q)"
    and r: "\<And>p LN. p < numprocs \<Longrightarrow> LN < Num_Rcv_Grid_B2C (plans q) p \<Longrightarrow>
              C q ! (Index_Rcv_Grid_B2C (plans q) p LN)
                = rd (data_B p) (Index_Snd_Grid_B2C (plans p) q LN)"
    if q: "q < numprocs" for q
    using routing [OF v a q ord [OF q], of "data_C q" data_B] by (auto simp: C_def)
  have red: "redistribute numprocs plans data_B ords data_C = Some (map C [0..<numprocs])"
    unfolding redistribute_def by (rule collect_map) (simp add: run)
  have mC: "mset (C q) = mset (concat (map (\<lambda>p. payload_of plans data_B p q) [0..<numprocs]))"
    if q: "q < numprocs" for q
  proof -
    have "mset (concat (map (rcv_list (plans q)) [0..<numprocs])) = mset [0..<length (C q)]"
      using valid_plans_C [OF v q] by (simp only: len [OF q])
    then have "mset (C q) = mset (concat (map (\<lambda>p. map (\<lambda>k. C q ! k) (rcv_list (plans q) p)) [0..<numprocs]))"
      by (rule mset_by_index)
    also have "map (\<lambda>p. map (\<lambda>k. C q ! k) (rcv_list (plans q) p)) [0..<numprocs]
        = map (\<lambda>p. payload_of plans data_B p q) [0..<numprocs]"
      by (rule map_cong) (simp_all add: rcv_list_payload [OF v _ q r [OF q]])
    finally show ?thesis .
  qed
  have mB: "mset (data_B p) = mset (concat (map (\<lambda>q. payload_of plans data_B p q) [0..<numprocs]))"
    if p: "p < numprocs" for p
  proof -
    have "mset (data_B p) = mset (concat (map (\<lambda>q. map (\<lambda>k. data_B p ! k) (snd_list (plans p) q)) [0..<numprocs]))"
      using valid_plans_B [OF v p] by (rule mset_by_index)
    also have "map (\<lambda>q. map (\<lambda>k. data_B p ! k) (snd_list (plans p) q)) [0..<numprocs]
        = map (\<lambda>q. payload_of plans data_B p q) [0..<numprocs]"
      by (rule map_cong) (simp_all add: snd_list_payload [OF v p])
    finally show ?thesis .
  qed
  have "mset (concat (map C [0..<numprocs])) = (\<Sum>q\<leftarrow>[0..<numprocs]. mset (C q))"
    by (rule mset_concat_map)
  also have "\<dots> = (\<Sum>q\<leftarrow>[0..<numprocs]. mset (concat (map (\<lambda>p. payload_of plans data_B p q) [0..<numprocs])))"
    by (rule arg_cong [where f = sum_list], rule map_cong) (simp_all add: mC)
  also have "\<dots> = mset (concat (map (\<lambda>q. concat (map (\<lambda>p. payload_of plans data_B p q) [0..<numprocs])) [0..<numprocs]))"
    by (rule mset_concat_map [symmetric])
  also have "\<dots> = mset (concat (map (\<lambda>p. concat (map (\<lambda>q. payload_of plans data_B p q) [0..<numprocs])) [0..<numprocs]))"
    by (rule mset_concat_swap)
  also have "\<dots> = (\<Sum>p\<leftarrow>[0..<numprocs]. mset (concat (map (\<lambda>q. payload_of plans data_B p q) [0..<numprocs])))"
    by (rule mset_concat_map)
  also have "\<dots> = (\<Sum>p\<leftarrow>[0..<numprocs]. mset (data_B p))"
    by (rule arg_cong [where f = sum_list], rule map_cong) (simp_all add: mB)
  also have "\<dots> = mset (concat (map data_B [0..<numprocs]))"
    by (rule mset_concat_map [symmetric])
  finally show ?thesis using red by simp
qed

lemma valid_plans_ex:
  "valid_plans 3 plans_ex (\<lambda>p. length (data_B_ex p)) (\<lambda>p. length (data_C_ex p))"
  by code_simp

lemma self_aligned_ex: "self_aligned 3 plans_ex"
  by code_simp

lemma complete_once_ex: "q < 3 \<Longrightarrow> complete_once plans_ex q (ords_ex q)"
proof -
  assume "q < 3"
  then consider "q = 0" | "q = 1" | "q = 2" by linarith
  moreover have "complete_once plans_ex 0 (ords_ex 0)" by code_simp
  moreover have "complete_once plans_ex 1 (ords_ex 1)" by code_simp
  moreover have "complete_once plans_ex 2 (ords_ex 2)" by code_simp
  ultimately show ?thesis by metis
qed

lemma valid_plans_mis:
  "valid_plans 2 plans_mis (\<lambda>p. length (data_B_mis p)) (\<lambda>p. length (data_C_mis p))"
  by code_simp

lemma run_mis: "redistribute 2 plans_mis data_B_mis ords_mis data_C_mis = Some [[Some 20], [Some 20]]"
  by code_simp

lemma run_end: "Data_Grid_Copy_B2C_XiwenLi plans_end data_B_end 0 (ords_end 0) (data_C_end 0) = Some [None, Some 20]"
  by code_simp

lemma length_pack_partner [simp]: "length (pack_partner P data_B ID W) = length W"
  by (simp add: pack_partner_scatter)

lemma isend_loop_shape:
  "fold (\<lambda>ID (Work_Snd, sent).
             (let IDS = ID_NN_B2C_S P ID;
                  gp = GP_B2C_S P ID;
                  Work_Snd' = pack_partner P data_B ID Work_Snd
              in (Work_Snd',
                  if IDS \<noteq> myid'
                  then sent @ [(IDS, map (rd Work_Snd') [gp..<gp + Num_Snd_Grid_B2C P IDS])]
                  else sent)))
          xs (W, sent0) = (W', sent') \<Longrightarrow>
   length W' = length W \<and>
   map (map_prod id length) sent' =
     map (map_prod id length) sent0 @
     map (\<lambda>ID. (ID_NN_B2C_S P ID, Num_Snd_Grid_B2C P (ID_NN_B2C_S P ID)))
         (filter (\<lambda>ID. ID_NN_B2C_S P ID \<noteq> myid') xs)"
proof (induction xs arbitrary: W sent0)
  case Nil
  then show ?case by simp
next
  case (Cons ID xs)
  show ?case
  proof (cases "ID_NN_B2C_S P ID \<noteq> myid'")
    case True
    from Cons.prems True Cons.IH [of "pack_partner P data_B ID W"
        "sent0 @ [(ID_NN_B2C_S P ID, map (rd (pack_partner P data_B ID W))
            [GP_B2C_S P ID..<GP_B2C_S P ID + Num_Snd_Grid_B2C P (ID_NN_B2C_S P ID)])]"]
    show ?thesis by (simp add: Let_def)
  next
    case False
    from Cons.prems False Cons.IH [of "pack_partner P data_B ID W" sent0]
    show ?thesis by (simp add: Let_def)
  qed
qed

lemma send_side_shape:
  "length (fst (send_side P myid' data_B)) = GP_B2C_S P (NN_B2C_S P) \<and>
   map (map_prod id length) (snd (send_side P myid' data_B)) =
     map (\<lambda>ID. (ID_NN_B2C_S P ID, Num_Snd_Grid_B2C P (ID_NN_B2C_S P ID)))
         (filter (\<lambda>ID. ID_NN_B2C_S P ID \<noteq> myid') [0..<NN_B2C_S P])"
proof -
  obtain W' sent' where r: "send_side P myid' data_B = (W', sent')"
    by (cases "send_side P myid' data_B")
  from isend_loop_shape [OF r [unfolded send_side_def isend_loop_def]] r
  show ?thesis by simp
qed

lemma no_self_message: "(dest, payload) \<in> set (snd (send_side P myid' data_B)) \<Longrightarrow> dest \<noteq> myid'"
proof -
  assume "(dest, payload) \<in> set (snd (send_side P myid' data_B))"
  then have "(dest, length payload) \<in> set (map (map_prod id length) (snd (send_side P myid' data_B)))"
    by force
  then show ?thesis
    unfolding conjunct2 [OF send_side_shape] by auto
qed

lemma no_self_receive: "(IDR, gp, cnt) \<in> set (irecv_loop P myid') \<Longrightarrow> IDR \<noteq> myid'"
  by (auto simp: irecv_loop_eq rcv_post_def)


subsection \<open>The task list\<close>

text \<open>
  Claim C8. The index arrays \<open>OneD2Mc_AN\<close> and \<open>OneD2h_AN\<close> have length \<open>OneD_Nloop\<close>; read
  together they list every pair \<open>(Mc_AN, h_AN)\<close> with \<open>Mc_AN\<close> in \<open>1 .. Matomnum\<close> and \<open>h_AN\<close>
  in \<open>0 .. FNAN[M2G[Mc_AN]]\<close>, each exactly once; \<open>OneD_Nloop\<close> is the sum of
  \<open>FNAN[M2G[Mc_AN]] + 1\<close> over the locally owned atoms; and the call runs its tasks from
  these arrays, which it has built before the loop.
\<close>

theorem task_list_enumerates_pairs:
  "(case one_dimensionalize env of (OneD2Mc_AN, OneD2h_AN, OneD_Nloop) \<Rightarrow>
      length OneD2Mc_AN = OneD_Nloop \<and> length OneD2h_AN = OneD_Nloop \<and>
      distinct (zip OneD2Mc_AN OneD2h_AN) \<and>
      set (zip OneD2Mc_AN OneD2h_AN) =
        {(Mc_AN, h_AN). 1 \<le> Mc_AN \<and> Mc_AN \<le> Matomnum env \<and> h_AN \<le> FNAN env (M2G env Mc_AN)} \<and>
      OneD_Nloop = (\<Sum>Mc_AN\<leftarrow>[1..<Matomnum env + 1]. FNAN env (M2G env Mc_AN) + 1) \<and>
      Calc_MatrixElements_Vlr env AI_tmpH0 idx_P s =
        snd (fold (\<lambda>Nloop. quad_task env idx_P (OneD2Mc_AN ! Nloop) (OneD2h_AN ! Nloop))
               [0..<OneD_Nloop] (AI_tmpH0, s)))"
proof -
  have "Calc_MatrixElements_Vlr env AI_tmpH0 idx_P s =
      snd (fold (\<lambda>Nloop. quad_task env idx_P (map fst (task_pairs env) ! Nloop)
                   (map snd (task_pairs env) ! Nloop))
             [0..<length (task_pairs env)] (AI_tmpH0, s))"
    unfolding Calc_MatrixElements_Vlr_def one_dimensionalize_eq prod.case ..
  then show ?thesis
    unfolding one_dimensionalize_eq prod.case
    using distinct_task_pairs [of env] set_task_pairs [of env] length_task_pairs [of env]
    by (simp only: length_map zip_map_fst_snd simp_thms)
qed

subsection \<open>The source of the neighbour's orbital values\<close>

text \<open>
  Claim C9. For a task \<open>(Mc_AN, h_AN)\<close> of the list and an entry \<open>(i, j)\<close> of its block, the
  call leaves in \<open>Hlr[idx_P][Mc_AN][h_AN][i][j]\<close> the accumulation, over the grid points
  \<open>Nog\<close> of the pair and started from the entry's previous value, of
  \<open>GridVol * Vlr_Grid[idx_P][MN] * Orbs_Grid[Mc_AN][Nc][i]\<close> times the neighbour's orbital
  value, which is \<open>Orbs_Grid[Mh_AN][Nh][j]\<close> if \<open>G2ID[Gh_AN] = myid\<close> and
  \<open>Orbs_Grid_FNAN[Mc_AN][h_AN][Nog][j]\<close> if not. The factor of the owning atom always comes
  from \<open>Orbs_Grid[Mc_AN]\<close>.
\<close>

theorem neighbour_orbital_source:
  assumes "1 \<le> Mc_AN" and "Mc_AN \<le> Matomnum env" and "h_AN \<le> FNAN env (M2G env Mc_AN)"
    and "i < NO0_of env Mc_AN" and "j < NO1_of env Mc_AN h_AN"
  shows "Hlr (Calc_MatrixElements_Vlr env AI_tmpH0 idx_P s) (idx_P, Mc_AN, h_AN, i, j) =
     foldl (\<lambda>acc Nog.
              acc + GridVol s
                    * Vlr_Grid s idx_P (MGridListAtom env Mc_AN (GListTAtoms1 env Mc_AN h_AN Nog))
                    * Orbs_Grid s Mc_AN (GListTAtoms1 env Mc_AN h_AN Nog) i
                    * (if G2ID env (natn env (M2G env Mc_AN) h_AN) = myid env
                       then Orbs_Grid s (F_G2M env (natn env (M2G env Mc_AN) h_AN))
                              (GListTAtoms2 env Mc_AN h_AN Nog) j
                       else Orbs_Grid_FNAN s Mc_AN h_AN Nog j))
           (Hlr s (idx_P, Mc_AN, h_AN, i, j)) [0..<NumOLG env Mc_AN h_AN]"
  using assms
  by (simp add: Calc_MatrixElements_Vlr_eq block_entry_def set_task_pairs quad_block_def
      quad_sum_def)

text \<open>
  In the small configuration the neighbour of task \<open>(1, 1)\<close> belongs to process 1, so the
  halo value 3 is used and not the 5 of the local array: \<open>2 * 1 * 1 * 3 + 2 * 2 * 1 * 3\<close>.
\<close>

theorem neighbour_orbital_source_witness:
  "Hlr (Calc_MatrixElements_Vlr atoms_ex (\<lambda>k. 0) 1 grids_ex) (1, 1, 1, 0, 0) = 18"
  using neighbour_orbital_source [of 1 atoms_ex 1 0 0 "\<lambda>k. 0" 1 grids_ex]
  by (simp add: atoms_ex_def grids_ex_def NO0_of_def NO1_of_def upt_conv_Cons)

subsection \<open>What a call changes\<close>

text \<open>
  Claim C10. A call \<open>Calc_MatrixElements_Vlr(idx_P)\<close> leaves \<open>Vlr_Grid\<close>, \<open>Orbs_Grid\<close>,
  \<open>Orbs_Grid_FNAN\<close> and \<open>GridVol\<close> as they were, and changes no entry of \<open>Hlr\<close> other than
  the entries \<open>Hlr[idx_P][Mc_AN][h_AN][i][j]\<close> with \<open>Mc_AN\<close> in \<open>1 .. Matomnum\<close>,
  \<open>h_AN \<le> FNAN[M2G[Mc_AN]]\<close>, \<open>i < NO0\<close> and \<open>j < NO1\<close>; in particular no entry of another
  source index.
\<close>

theorem call_frame:
  "Vlr_Grid (Calc_MatrixElements_Vlr env AI_tmpH0 idx_P s) = Vlr_Grid s \<and>
   Orbs_Grid (Calc_MatrixElements_Vlr env AI_tmpH0 idx_P s) = Orbs_Grid s \<and>
   Orbs_Grid_FNAN (Calc_MatrixElements_Vlr env AI_tmpH0 idx_P s) = Orbs_Grid_FNAN s \<and>
   GridVol (Calc_MatrixElements_Vlr env AI_tmpH0 idx_P s) = GridVol s \<and>
   (\<forall>q Mc_AN h_AN i j.
      \<not> (q = idx_P \<and> 1 \<le> Mc_AN \<and> Mc_AN \<le> Matomnum env \<and> h_AN \<le> FNAN env (M2G env Mc_AN)
         \<and> i < NO0_of env Mc_AN \<and> j < NO1_of env Mc_AN h_AN) \<longrightarrow>
      Hlr (Calc_MatrixElements_Vlr env AI_tmpH0 idx_P s) (q, Mc_AN, h_AN, i, j)
        = Hlr s (q, Mc_AN, h_AN, i, j))"
  by (simp add: Calc_MatrixElements_Vlr_eq block_entry_def set_task_pairs)

theorem call_frame_witness:
  "Hlr (Calc_MatrixElements_Vlr atoms_ex (\<lambda>k. 0) 1 grids_ex) (2, 1, 1, 0, 0)
     = Hlr grids_ex (2, 1, 1, 0, 0) \<and>
   Hlr (Calc_MatrixElements_Vlr atoms_ex (\<lambda>k. 0) 1 grids_ex) (1, 1, 2, 0, 0)
     = Hlr grids_ex (1, 1, 2, 0, 0) \<and>
   Vlr_Grid (Calc_MatrixElements_Vlr atoms_ex (\<lambda>k. 0) 1 grids_ex) = Vlr_Grid grids_ex"
  using call_frame [of atoms_ex "\<lambda>k. 0" 1 grids_ex]
  by (simp add: atoms_ex_def)

subsection \<open>Repeating a call\<close>

text \<open>
  Claim C1 says that a second call with the same inputs leaves the blocks of the first
  call. It does not: the scratch block of a task is seeded from the stored block, so the
  second call adds the quadrature terms to what the first call stored. In the small
  configuration the entry of task \<open>(1, 0)\<close> is 6 after one call and 12 after two.
\<close>

theorem repeated_call_counterexample:
  "Hlr (Calc_MatrixElements_Vlr atoms_ex (\<lambda>k. 0) 1 grids_ex) (1, 1, 0, 0, 0) = 6 \<and>
   Hlr (Calc_MatrixElements_Vlr atoms_ex (\<lambda>k. 0) 1
          (Calc_MatrixElements_Vlr atoms_ex (\<lambda>k. 0) 1 grids_ex)) (1, 1, 0, 0, 0) = 12"
  by (simp add: Calc_MatrixElements_Vlr_def one_dimensionalize_def count_loops_def
      fill_loops_def quad_task_def load_block_def grid_point_def store_block_def
      atoms_ex_def grids_ex_def upt_conv_Cons)

text \<open>
  Claim C1 as amended. The write-back overwrites the stored block with the scratch block,
  and the scratch block was seeded from the stored block: after one call an entry holds
  the accumulation \<open>quad_sum\<close> started from its previous value, and after a second call
  with the same potential, orbitals and neighbour lists it holds the same accumulation
  started from the value the first call stored. A second call made after \<open>Hlr\<close> has been
  set back to its contents before the first call leaves the state the first call left.
\<close>

theorem repeated_call_accumulates:
  assumes "1 \<le> Mc_AN" and "Mc_AN \<le> Matomnum env" and "h_AN \<le> FNAN env (M2G env Mc_AN)"
    and "i < NO0_of env Mc_AN" and "j < NO1_of env Mc_AN h_AN"
  shows "Hlr (Calc_MatrixElements_Vlr env AI_tmpH0 idx_P s) (idx_P, Mc_AN, h_AN, i, j)
           = quad_sum env s idx_P Mc_AN h_AN i j (Hlr s (idx_P, Mc_AN, h_AN, i, j)) \<and>
         Hlr (Calc_MatrixElements_Vlr env AI_tmpH1 idx_P
                (Calc_MatrixElements_Vlr env AI_tmpH0 idx_P s)) (idx_P, Mc_AN, h_AN, i, j)
           = quad_sum env s idx_P Mc_AN h_AN i j
               (quad_sum env s idx_P Mc_AN h_AN i j (Hlr s (idx_P, Mc_AN, h_AN, i, j))) \<and>
         Calc_MatrixElements_Vlr env AI_tmpH1 idx_P
           ((Calc_MatrixElements_Vlr env AI_tmpH0 idx_P s)\<lparr>Hlr := Hlr s\<rparr>)
           = Calc_MatrixElements_Vlr env AI_tmpH0 idx_P s"
proof -
  have "(Calc_MatrixElements_Vlr env AI_tmpH0 idx_P s)\<lparr>Hlr := Hlr s\<rparr> = s"
    by (simp add: Calc_MatrixElements_Vlr_eq)
  then have "Calc_MatrixElements_Vlr env AI_tmpH1 idx_P
           ((Calc_MatrixElements_Vlr env AI_tmpH0 idx_P s)\<lparr>Hlr := Hlr s\<rparr>)
           = Calc_MatrixElements_Vlr env AI_tmpH0 idx_P s"
    by (simp only: Calc_MatrixElements_Vlr_eq)
  moreover have "Hlr (Calc_MatrixElements_Vlr env AI_tmpH0 idx_P s) (idx_P, Mc_AN, h_AN, i, j)
           = quad_sum env s idx_P Mc_AN h_AN i j (Hlr s (idx_P, Mc_AN, h_AN, i, j))"
    using assms
    by (simp add: Calc_MatrixElements_Vlr_eq block_entry_def set_task_pairs quad_block_def)
  moreover have "Hlr (Calc_MatrixElements_Vlr env AI_tmpH1 idx_P
                (Calc_MatrixElements_Vlr env AI_tmpH0 idx_P s)) (idx_P, Mc_AN, h_AN, i, j)
           = quad_sum env s idx_P Mc_AN h_AN i j
               (quad_sum env s idx_P Mc_AN h_AN i j (Hlr s (idx_P, Mc_AN, h_AN, i, j)))"
    using assms
    by (simp add: Calc_MatrixElements_Vlr_eq block_entry_def set_task_pairs quad_block_def)
  ultimately show ?thesis by blast
qed

text \<open>
  The entry of task \<open>(1, 1)\<close> of the small configuration, whose neighbour belongs to
  another process: 18 after one call and 36 after two.
\<close>

theorem repeated_call_accumulates_witness:
  "Hlr (Calc_MatrixElements_Vlr atoms_ex (\<lambda>k. 1) 1
          (Calc_MatrixElements_Vlr atoms_ex (\<lambda>k. 0) 1 grids_ex)) (1, 1, 1, 0, 0) = 36 \<and>
   Calc_MatrixElements_Vlr atoms_ex (\<lambda>k. 1) 1
     ((Calc_MatrixElements_Vlr atoms_ex (\<lambda>k. 0) 1 grids_ex)\<lparr>Hlr := Hlr grids_ex\<rparr>)
     = Calc_MatrixElements_Vlr atoms_ex (\<lambda>k. 0) 1 grids_ex"
  using repeated_call_accumulates [of 1 atoms_ex 1 0 0 "\<lambda>k. 0" 1 grids_ex "\<lambda>k. 1"]
  by (simp add: atoms_ex_def grids_ex_def NO0_of_def NO1_of_def quad_sum_def upt_conv_Cons)

subsection \<open>Conservation, single source, the self-pair and the missing check\<close>

lemma unp_writes_targets:
  "map fst (concat (map (unp_writes P myid' Work_Snd Work_Rcv) [0..<NN_B2C_R P])) = unpack_targets P"
  unfolding fst_unp_writes unpack_targets_def rcv_list_def by (simp add: comp_def)

lemma unpack_targets_perm:
  assumes "valid_plans numprocs plans len_B len_C" and "q < numprocs"
  shows "mset (unpack_targets (plans q)) = mset [0..<len_C q]"
  using unpack_positions [OF assms, of "[]" "[]"] by (simp only: unp_writes_targets)

lemma real_sum_mset: "mset xs = mset ys \<Longrightarrow> sum_list (map f xs) = (sum_list (map f ys) :: real)"
proof -
  assume "mset xs = mset ys"
  then have "sum_mset (image_mset f (mset xs)) = sum_mset (image_mset f (mset ys))" by simp
  then show ?thesis by (simp only: mset_map [symmetric] sum_mset_sum_list)
qed

text \<open>
  Claim C4 says that the sum of the values is kept under every plan in which each local
  index is in exactly one list and the counts match. The second configuration is such a
  plan: process 0 unpacks its own value from the offset of the first send partner, which
  is process 1 there, so the value 20 arrives twice and the value 10 nowhere. The fields
  of partition B sum to 30, those of partition C to 40.
\<close>

theorem conservation_counterexample:
  "valid_plans 2 plans_mis (\<lambda>p. length (data_B_mis p)) (\<lambda>p. length (data_C_mis p)) \<and>
   complete_once plans_mis 0 (ords_mis 0) \<and> complete_once plans_mis 1 (ords_mis 1) \<and>
   map data_B_mis [0..<2] = [[Some 10, Some 20], []] \<and>
   redistribute 2 plans_mis data_B_mis ords_mis data_C_mis = Some [[Some 20], [Some 20]]"
  by code_simp

text \<open>
  Claim C4 as amended. If moreover the own rank of each process stands at the same
  position of its send and receive partner lists, then for all fields of the sizes of
  the plans and all orders of completion every process returns, the values of the
  partition-C fields are those of the partition-B fields with their multiplicities,
  and so are their sums.
\<close>

theorem redistribution_conserves:
  assumes "valid_plans numprocs plans (\<lambda>p. length (data_B p)) (\<lambda>p. length (data_C p))"
    and "self_aligned numprocs plans"
    and "\<forall>q < numprocs. complete_once plans q (ords q)"
  shows "\<exists>Cs. redistribute numprocs plans data_B ords data_C = Some Cs \<and>
           mset (concat Cs) = mset (concat (map data_B [0..<numprocs])) \<and>
           sum_list (map the (concat Cs)) = (sum_list (map the (concat (map data_B [0..<numprocs]))) :: real)"
proof -
  obtain Cs where "redistribute numprocs plans data_B ords data_C = Some Cs"
    and m: "mset (concat Cs) = mset (concat (map data_B [0..<numprocs]))"
    using conservation [OF assms(1,2), of ords] assms(3) by auto
  moreover from m have "sum_list (map the (concat Cs))
      = (sum_list (map the (concat (map data_B [0..<numprocs]))) :: real)"
    by (rule real_sum_mset)
  ultimately show ?thesis using m by blast
qed

theorem redistribution_conserves_witness:
  "\<exists>Cs. redistribute 3 plans_ex data_B_ex ords_ex data_C_ex = Some Cs \<and>
      sum_list (map the (concat Cs)) = 92"
proof -
  have "\<forall>q < 3. complete_once plans_ex q (ords_ex q)"
    using complete_once_ex by blast
  from redistribution_conserves [OF valid_plans_ex self_aligned_ex this]
  obtain Cs where "redistribute 3 plans_ex data_B_ex ords_ex data_C_ex = Some Cs"
    and "sum_list (map the (concat Cs)) = sum_list (map the (concat (map data_B_ex [0..<3])))"
    by blast
  moreover have "sum_list (map the (concat (map data_B_ex [0..<3]))) = 92"
    by (simp add: data_B_ex_def upt_conv_Cons)
  ultimately show ?thesis by simp
qed

text \<open>
  Claim C5 says that under a valid plan the value written to a destination comes from one
  source grid point. In the third configuration every index is in one list and the
  counts match; process 0 finds itself at position 1 of its receive partners and reads
  its own value at \<open>GP_B2C_S[1] = 1\<close>, which is the end of its send buffer of one cell.
  The destination \<open>data_C[0]\<close> of its own value is written once, with an indeterminate
  value.
\<close>

theorem single_source_counterexample:
  "valid_plans 2 plans_end (\<lambda>p. length (data_B_end p)) (\<lambda>p. length (data_C_end p)) \<and>
   complete_once plans_end 0 (ords_end 0) \<and>
   length (fst (send_side (plans_end 0) 0 (data_B_end 0))) = 1 \<and>
   GP_B2C_S (plans_end 0) 1 = 1 \<and>
   Index_Rcv_Grid_B2C (plans_end 0) 0 0 = 0 \<and>
   Data_Grid_Copy_B2C_XiwenLi plans_end data_B_end 0 (ords_end 0) (data_C_end 0)
     = Some [None, Some 20]"
  by code_simp

text \<open>
  Claim C5 as amended. Under a valid plan in which the own rank of each process stands at
  the same position of its send and receive partner lists, the unpacking loop of a
  process assigns every index of its receive lists exactly once, and for every two
  orders in which the receives complete the call returns the same field, in which the
  destination \<open>Index_Rcv_Grid_B2C[p][LN]\<close> holds the cell
  \<open>data_B[Index_Snd_Grid_B2C[q][LN]]\<close> of process \<open>p\<close>.
\<close>

theorem single_source:
  assumes v: "valid_plans numprocs plans len_B len_C" and a: "self_aligned numprocs plans"
    and q: "q < numprocs" and lc: "length data_C = len_C q"
    and ord: "complete_once plans q ord" and ord': "complete_once plans q ord'"
  shows "distinct (unpack_targets (plans q)) \<and>
     (\<forall>p LN. p < numprocs \<and> LN < Num_Rcv_Grid_B2C (plans q) p \<longrightarrow>
        Index_Rcv_Grid_B2C (plans q) p LN \<in> set (unpack_targets (plans q))) \<and>
     (\<exists>C'. Data_Grid_Copy_B2C_XiwenLi plans data_B q ord data_C = Some C' \<and>
           Data_Grid_Copy_B2C_XiwenLi plans data_B q ord' data_C = Some C' \<and>
           (\<forall>p LN. p < numprocs \<and> LN < Num_Rcv_Grid_B2C (plans q) p \<longrightarrow>
              C' ! (Index_Rcv_Grid_B2C (plans q) p LN)
                = rd (data_B p) (Index_Snd_Grid_B2C (plans p) q LN)))"
proof -
  have perm: "mset (unpack_targets (plans q)) = mset [0..<len_C q]"
    using v q by (rule unpack_targets_perm)
  have d: "distinct (unpack_targets (plans q))"
    using perm mset_eq_imp_distinct_iff [of "unpack_targets (plans q)" "[0..<len_C q]"] by simp
  have cover: "set (concat (map (rcv_list (plans q)) [0..<numprocs])) = set [0..<len_C q]"
    using valid_plans_C [OF v q] by (rule mset_eq_setD)
  have st: "set (unpack_targets (plans q)) = set [0..<len_C q]"
    using perm by (rule mset_eq_setD)
  have mem: "Index_Rcv_Grid_B2C (plans q) p LN \<in> set (unpack_targets (plans q))"
    if "p < numprocs" "LN < Num_Rcv_Grid_B2C (plans q) p" for p LN
  proof -
    have "Index_Rcv_Grid_B2C (plans q) p LN \<in> set (rcv_list (plans q) p)"
      using that(2) by (simp add: rcv_list_def)
    then have "Index_Rcv_Grid_B2C (plans q) p LN \<in> set (concat (map (rcv_list (plans q)) [0..<numprocs]))"
      using that(1) by (simp only: set_concat set_map) force
    then show ?thesis unfolding cover st .
  qed
  obtain C1 where r1: "Data_Grid_Copy_B2C_XiwenLi plans data_B q ord data_C = Some C1"
    and l1: "length C1 = len_C q"
    and v1: "\<And>p LN. p < numprocs \<Longrightarrow> LN < Num_Rcv_Grid_B2C (plans q) p \<Longrightarrow>
        C1 ! (Index_Rcv_Grid_B2C (plans q) p LN) = rd (data_B p) (Index_Snd_Grid_B2C (plans p) q LN)"
    using routing [OF v a q ord lc, of data_B] by auto
  obtain C2 where r2: "Data_Grid_Copy_B2C_XiwenLi plans data_B q ord' data_C = Some C2"
    and l2: "length C2 = len_C q"
    and v2: "\<And>p LN. p < numprocs \<Longrightarrow> LN < Num_Rcv_Grid_B2C (plans q) p \<Longrightarrow>
        C2 ! (Index_Rcv_Grid_B2C (plans q) p LN) = rd (data_B p) (Index_Snd_Grid_B2C (plans p) q LN)"
    using routing [OF v a q ord' lc, of data_B] by auto
  have "C1 = C2"
  proof (rule nth_equalityI)
    show "length C1 = length C2" by (simp add: l1 l2)
  next
    fix k assume "k < length C1"
    then have "k \<in> set (concat (map (rcv_list (plans q)) [0..<numprocs]))"
      unfolding cover by (simp add: l1)
    then obtain p LN where "p < numprocs" "LN < Num_Rcv_Grid_B2C (plans q) p"
      "k = Index_Rcv_Grid_B2C (plans q) p LN"
      by (auto simp: rcv_list_def)
    then show "C1 ! k = C2 ! k" using v1 v2 by simp
  qed
  with r1 r2 v1 d mem show ?thesis by blast
qed

lemma complete_once_ex0: "complete_once plans_ex 0 [0, 1]"
  by code_simp

theorem single_source_witness:
  "\<exists>C'. Data_Grid_Copy_B2C_XiwenLi plans_ex data_B_ex 0 [1, 0] (data_C_ex 0) = Some C' \<and>
        Data_Grid_Copy_B2C_XiwenLi plans_ex data_B_ex 0 [0, 1] (data_C_ex 0) = Some C' \<and>
        C' ! 1 = Some 30"
proof -
  have o: "complete_once plans_ex 0 [1, 0]"
    using complete_once_ex [of 0] by (simp add: ords_ex_def)
  have l: "length (data_C_ex 0) = length (data_C_ex 0)" ..
  have i: "Index_Rcv_Grid_B2C (plans_ex 0) 2 0 = 1" "(2::nat) < 3"
    "(0::nat) < Num_Rcv_Grid_B2C (plans_ex 0) 2"
    "rd (data_B_ex 2) (Index_Snd_Grid_B2C (plans_ex 2) 0 0) = Some 30"
    by (simp_all add: plans_ex_def data_B_ex_def rd_def)
  from single_source [OF valid_plans_ex self_aligned_ex _ l o complete_once_ex0, of data_B_ex] i
  show ?thesis by (metis zero_less_numeral)
qed

text \<open>
  Claim C6 says that the values of the self-pair reach their destinations. In the second
  configuration no message is sent or received for the own rank, but the destination of
  the own value of process 0, which is 10, receives 20.
\<close>

theorem self_pair_counterexample:
  "valid_plans 2 plans_mis (\<lambda>p. length (data_B_mis p)) (\<lambda>p. length (data_C_mis p)) \<and>
   complete_once plans_mis 0 (ords_mis 0) \<and>
   Num_Snd_Grid_B2C (plans_mis 0) 0 = 1 \<and>
   rd (data_B_mis 0) (Index_Snd_Grid_B2C (plans_mis 0) 0 0) = Some 10 \<and>
   Index_Rcv_Grid_B2C (plans_mis 0) 0 0 = 0 \<and>
   Data_Grid_Copy_B2C_XiwenLi plans_mis data_B_mis 0 (ords_mis 0) (data_C_mis 0) = Some [Some 20]"
  by code_simp

text \<open>
  Claim C6 as amended. No message is sent to the own rank and no receive is posted for
  it; and under a valid plan in which the own rank of each process stands at the same
  position of its send and receive partner lists, every value of the send list of a
  process for itself is in its destination \<open>data_C[Index_Rcv_Grid_B2C[myid][LN]]\<close> when the
  call returns.
\<close>

theorem self_pair_copied:
  assumes v: "valid_plans numprocs plans len_B len_C" and a: "self_aligned numprocs plans"
    and q: "q < numprocs" and lc: "length data_C = len_C q"
    and ord: "complete_once plans q ord"
  shows "(\<forall>m \<in> set (snd (send_side (plans q) q (data_B q))). fst m \<noteq> q) \<and>
     (\<forall>r \<in> set (irecv_loop (plans q) q). fst r \<noteq> q) \<and>
     (\<exists>C'. Data_Grid_Copy_B2C_XiwenLi plans data_B q ord data_C = Some C' \<and>
           (\<forall>LN < Num_Snd_Grid_B2C (plans q) q.
              C' ! (Index_Rcv_Grid_B2C (plans q) q LN)
                = rd (data_B q) (Index_Snd_Grid_B2C (plans q) q LN)))"
proof -
  have s: "\<forall>m \<in> set (snd (send_side (plans q) q (data_B q))). fst m \<noteq> q"
  proof
    fix m assume "m \<in> set (snd (send_side (plans q) q (data_B q)))"
    then show "fst m \<noteq> q"
      using no_self_message [of "fst m" "snd m" "plans q" q "data_B q"] by simp
  qed
  have r: "\<forall>r \<in> set (irecv_loop (plans q) q). fst r \<noteq> q"
  proof
    fix r assume "r \<in> set (irecv_loop (plans q) q)"
    then show "fst r \<noteq> q"
      using no_self_receive [of "fst r" "fst (snd r)" "snd (snd r)" "plans q" q] by simp
  qed
  have c: "Num_Snd_Grid_B2C (plans q) q = Num_Rcv_Grid_B2C (plans q) q"
    using v q q by (rule valid_plans_counts)
  obtain C' where "Data_Grid_Copy_B2C_XiwenLi plans data_B q ord data_C = Some C'"
    and "\<And>p LN. p < numprocs \<Longrightarrow> LN < Num_Rcv_Grid_B2C (plans q) p \<Longrightarrow>
        C' ! (Index_Rcv_Grid_B2C (plans q) p LN) = rd (data_B p) (Index_Snd_Grid_B2C (plans p) q LN)"
    using routing [OF v a q ord lc, of data_B] by auto
  with s r c q show ?thesis by auto
qed

theorem self_pair_copied_witness:
  "\<exists>C'. Data_Grid_Copy_B2C_XiwenLi plans_ex data_B_ex 1 (ords_ex 1) (data_C_ex 1) = Some C' \<and>
        C' ! 0 = Some 21"
proof -
  have l: "length (data_C_ex 1) = length (data_C_ex 1)" ..
  have o: "complete_once plans_ex 1 (ords_ex 1)"
    using complete_once_ex [of 1] by simp
  have i: "(1::nat) < 3" "(0::nat) < Num_Snd_Grid_B2C (plans_ex 1) 1"
    "Index_Rcv_Grid_B2C (plans_ex 1) 1 0 = 0"
    "rd (data_B_ex 1) (Index_Snd_Grid_B2C (plans_ex 1) 1 0) = Some 21"
    by (simp_all add: plans_ex_def data_B_ex_def rd_def)
  from self_pair_copied [OF valid_plans_ex self_aligned_ex i(1) l o, of data_B_ex] i
  show ?thesis by metis
qed

text \<open>
  Claim C7 says that a plan whose sizes do not match the field is detected before data is
  moved. The routine has no such check. With the plans of the first configuration, whose
  send buffer on process 0 has two cells, and a partition-B field of three values there,
  every process returns and the values the plan names have been moved.
\<close>

theorem plan_mismatch_counterexample:
  "GP_B2C_S (plans_ex 0) (NN_B2C_S (plans_ex 0)) = 2 \<and> length (data_B_long 0) = 3 \<and>
   redistribute 3 plans_ex data_B_long ords_ex data_C_ex
     = Some [[Some 20, Some 30, Some 10], [Some 21, Some 11], []]"
  by code_simp

text \<open>
  Claim C7 as amended. Fields that have more cells than the plan names are not reported.
  With plans that are valid for fields of \<open>len_B\<close> and \<open>len_C\<close> cells and in which the own
  rank stands at the same position of both partner lists, a call with fields that have at
  least that many cells returns; the cells the plan names have been moved as the plan
  says, the other cells of \<open>data_B\<close> have been ignored and the other cells of \<open>data_C\<close> are
  as they were.
\<close>

theorem no_plan_check:
  assumes v: "valid_plans numprocs plans len_B len_C" and a: "self_aligned numprocs plans"
    and q: "q < numprocs" and ord: "complete_once plans q ord"
    and lb: "\<And>p. p < numprocs \<Longrightarrow> len_B p \<le> length (data_B p)"
    and lc: "len_C q \<le> length data_C"
  shows "\<exists>C'. Data_Grid_Copy_B2C_XiwenLi plans data_B q ord data_C = Some C' \<and>
           length C' = length data_C \<and>
           (\<forall>p LN. p < numprocs \<and> LN < Num_Rcv_Grid_B2C (plans q) p \<longrightarrow>
              C' ! (Index_Rcv_Grid_B2C (plans q) p LN)
                = data_B p ! (Index_Snd_Grid_B2C (plans p) q LN)) \<and>
           (\<forall>i. len_C q \<le> i \<and> i < length data_C \<longrightarrow> C' ! i = data_C ! i)"
proof -
  obtain C' where
    run: "Data_Grid_Copy_B2C_XiwenLi plans data_B q ord data_C = Some C'"
    and len: "length C' = length data_C"
    and mv: "\<And>p LN. p < numprocs \<Longrightarrow> LN < Num_Rcv_Grid_B2C (plans q) p \<Longrightarrow>
              C' ! (Index_Rcv_Grid_B2C (plans q) p LN)
                = rd (data_B p) (Index_Snd_Grid_B2C (plans p) q LN)"
    and keep: "\<And>i. len_C q \<le> i \<Longrightarrow> C' ! i = data_C ! i"
    using routing_slack [OF v a q ord lc, of data_B] by blast
  have "C' ! (Index_Rcv_Grid_B2C (plans q) p LN) = data_B p ! (Index_Snd_Grid_B2C (plans p) q LN)"
    if p: "p < numprocs" and LN: "LN < Num_Rcv_Grid_B2C (plans q) p" for p LN
  proof -
    have cnt: "Num_Snd_Grid_B2C (plans p) q = Num_Rcv_Grid_B2C (plans q) p"
      using v p q by (rule valid_plans_counts)
    have "set (concat (map (snd_list (plans p)) [0..<numprocs])) = set [0..<len_B p]"
      using valid_plans_B [OF v p] by (rule mset_eq_setD)
    then have "set (snd_list (plans p) q) \<subseteq> {..<len_B p}"
      using q by auto
    then have "Index_Snd_Grid_B2C (plans p) q LN < len_B p"
      using LN cnt by (auto simp: snd_list_def image_subset_iff)
    then have "Index_Snd_Grid_B2C (plans p) q LN < length (data_B p)"
      using lb [OF p] by simp
    then show ?thesis
      using mv [OF p LN] by (simp add: rd_def)
  qed
  with run len keep show ?thesis by blast
qed

text \<open>
  Process 0 of the first configuration with three values in \<open>data_B\<close> and four cells in
  \<open>data_C\<close>, where its plan names two and three: the call returns, and the fourth cell of
  \<open>data_C\<close> is as it was.
\<close>

theorem no_plan_check_witness:
  "\<exists>C'. Data_Grid_Copy_B2C_XiwenLi plans_ex data_B_long 0 (ords_ex 0) data_C_long = Some C' \<and>
        length C' = 4 \<and> C' ! 0 = Some 20 \<and> C' ! 3 = Some 99"
proof -
  have lb: "\<And>p. p < 3 \<Longrightarrow> length (data_B_ex p) \<le> length (data_B_long p)"
    by (simp add: data_B_long_def data_B_ex_def)
  have lc: "length (data_C_ex 0) \<le> length data_C_long"
    by (simp add: data_C_ex_def data_C_long_def)
  have o: "complete_once plans_ex 0 (ords_ex 0)"
    by (rule complete_once_ex) simp
  have i: "Index_Rcv_Grid_B2C (plans_ex 0) 1 0 = 0" "(1::nat) < 3"
    "(0::nat) < Num_Rcv_Grid_B2C (plans_ex 0) 1"
    "data_B_long 1 ! (Index_Snd_Grid_B2C (plans_ex 1) 0 0) = Some 20"
    "length (data_C_ex 0) \<le> 3" "(3::nat) < length data_C_long" "length data_C_long = 4"
    "data_C_long ! 3 = Some 99"
    by (simp_all add: plans_ex_def data_B_long_def data_B_ex_def data_C_ex_def data_C_long_def)
  from no_plan_check [OF valid_plans_ex self_aligned_ex _ o lb lc] i
  show ?thesis by (metis zero_less_numeral)
qed

end
